theory Spec2Isabelle
  imports Main "HOL-Library.Sublist" "HOL-Library.Word"
begin

section \<open>MediaManager: the torrent import pipeline\<close>

text \<open>
  A shallow embedding of \<^verbatim>\<open>media_manager/torrent/utils.py\<close>: the five functions
  \<^verbatim>\<open>list_files_recursively\<close>, \<^verbatim>\<open>extract_archives\<close>, \<^verbatim>\<open>get_torrent_filepath\<close>,
  \<^verbatim>\<open>import_file\<close> and \<^verbatim>\<open>import_torrent\<close>. The functions act on the filesystem
  through \<^verbatim>\<open>pathlib\<close>, \<^verbatim>\<open>shutil\<close> and \<^verbatim>\<open>patoolib\<close>, and they log. The model
  threads a state through every function: the filesystem and a trace that records, in
  order, each log record and each call that enumerates or changes the filesystem. A
  Python call either returns a value or raises, so every function returns a pair of an
  outcome (\<open>Inl\<close> the exception raised, \<open>Inr\<close> the value returned) and the state it
  leaves. The standard library is modelled as CPython 3.10 to 3.12 implement it, the
  operating system as Linux behaves.
\<close>

subsection \<open>Paths\<close>

text \<open>
  A \<^verbatim>\<open>Path\<close> is the list of its parts, as \<^verbatim>\<open>PurePosixPath.parts\<close> gives them: an
  absolute path starts with the anchor \<open>''/''\<close> (or \<open>''//''\<close>), \<^verbatim>\<open>Path('.')\<close> has no
  parts.
\<close>

type_synonym path = "string list"

definition is_anchor :: "string \<Rightarrow> bool" where
  "is_anchor a = (a = ''/'' \<or> a = ''//'')"

definition is_absolute :: "path \<Rightarrow> bool" where
  "is_absolute p = (case p of [] \<Rightarrow> False | a # _ \<Rightarrow> is_anchor a)"

fun join_parts :: "string list \<Rightarrow> string" where
  "join_parts [] = []"
| "join_parts [c] = c"
| "join_parts (c # cs) = c @ ''/'' @ join_parts cs"

text \<open>\<^verbatim>\<open>str(path)\<close>.\<close>

definition str :: "path \<Rightarrow> string" where
  "str p = (case p of
              [] \<Rightarrow> ''.''
            | a # cs \<Rightarrow> if is_anchor a then a @ join_parts cs else join_parts (a # cs))"

text \<open>\<^verbatim>\<open>path.parent\<close>: the anchor and \<^verbatim>\<open>Path('.')\<close> are their own parents.\<close>

definition parent :: "path \<Rightarrow> path" where
  "parent p = (if p = [] \<or> (length p = 1 \<and> is_absolute p) then p else butlast p)"

text \<open>\<^verbatim>\<open>path.name\<close>: the last part, empty for the anchor and for \<^verbatim>\<open>Path('.')\<close>.\<close>

definition name :: "path \<Rightarrow> string" where
  "name p = (if p = [] \<or> (length p = 1 \<and> is_absolute p) then [] else last p)"

text \<open>
  \<^verbatim>\<open>path.suffix\<close>:
  \<^verbatim>\<open>
  name = self.name
  i = name.rfind('.')
  if 0 < i < len(name) - 1:
      return name[i:]
  else:
      return ''
  \<close>
  With \<open>ext\<close> the text after the last dot, the dot is at index
  \<open>i = length name - length ext - 1\<close>.
\<close>

definition path_suffix :: "path \<Rightarrow> string" where
  "path_suffix p =
     (let nm = name p;
          ext = rev (takeWhile (\<lambda>c. c \<noteq> CHR ''.'') (rev nm))
      in if CHR ''.'' \<in> set nm \<and> length ext + 1 < length nm \<and> ext \<noteq> []
         then CHR ''.'' # ext else [])"

text \<open>
  Parsing a string into parts, as the \<^verbatim>\<open>Path\<close> constructor does: split at the slashes,
  drop empty parts and \<open>''.''\<close> parts, keep a leading anchor (exactly two leading slashes
  are the anchor \<open>''//''\<close>).
\<close>

fun split_slash :: "string \<Rightarrow> string list" where
  "split_slash [] = [[]]"
| "split_slash (c # cs) =
     (if c = CHR ''/'' then [] # split_slash cs
      else (case split_slash cs of [] \<Rightarrow> [[c]] | x # xs \<Rightarrow> (c # x) # xs))"

definition anchor_of :: "string \<Rightarrow> string list" where
  "anchor_of s =
     (if take 2 s = ''//'' \<and> take 3 s \<noteq> ''///'' then [''//'']
      else if take 1 s = ''/'' then [''/'']
      else [])"

definition parse_path :: "string \<Rightarrow> path" where
  "parse_path s = anchor_of s @ filter (\<lambda>c. c \<noteq> [] \<and> c \<noteq> ''.'') (split_slash s)"

text \<open>\<^verbatim>\<open>base / s\<close> for a string \<open>s\<close>: an absolute \<open>s\<close> replaces the base.\<close>

definition truediv :: "path \<Rightarrow> string \<Rightarrow> path" where
  "truediv base s = (let q = parse_path s in if is_absolute q then q else base @ q)"

subsection \<open>Exceptions\<close>

datatype errno =
  ENOENT | ENOTDIR | EISDIR | EEXIST | EPERM | EACCES | EXDEV | EMLINK | ENOSPC | EROFS | EIO
  | ELOOP | EBADF

text \<open>
  An \<^verbatim>\<open>OSError\<close> carries its errno; Python raises it as the subclass of the errno
  (\<^verbatim>\<open>FileExistsError\<close> is \<open>OSError EEXIST\<close>, \<^verbatim>\<open>FileNotFoundError\<close> is
  \<open>OSError ENOENT\<close>, \<^verbatim>\<open>PermissionError\<close> is \<open>OSError EACCES\<close> or \<open>OSError EPERM\<close>).
  \<^verbatim>\<open>shutil.SameFileError\<close> is a subclass of \<^verbatim>\<open>OSError\<close> too. \<open>PatoolError\<close> is
  \<^verbatim>\<open>patoolib.util.PatoolError\<close>, and \<open>Exception\<close> any exception of another class.
\<close>

datatype exn = OSError errno | SameFileError | PatoolError string | Exception string

definition is_FileExistsError :: "exn \<Rightarrow> bool" where
  "is_FileExistsError e = (e = OSError EEXIST)"

definition is_OSError :: "exn \<Rightarrow> bool" where
  "is_OSError e = (case e of OSError _ \<Rightarrow> True | SameFileError \<Rightarrow> True | _ \<Rightarrow> False)"

definition is_PatoolError :: "exn \<Rightarrow> bool" where
  "is_PatoolError e = (case e of PatoolError _ \<Rightarrow> True | _ \<Rightarrow> False)"

subsection \<open>The filesystem\<close>

text \<open>
  The filesystem is the tree under \<^verbatim>\<open>/\<close>. A regular file is its inode number; the
  bytes of each inode are kept apart, so that a hard link (the same inode under a second
  name) and a copy (a new inode with the same bytes) differ. A directory has its three
  permissions (to list it, to add and remove entries, to look a name up in it) and the
  size that \<^verbatim>\<open>stat\<close> reports for it, and it lists its entries in the order the
  operating system iterates them. A symbolic link holds the path it points to. The
  permissions of regular files are not modelled: every file can be read and overwritten.
\<close>

type_synonym bytes = "8 word list"

datatype dir_attr = DirAttr (readable: bool) (writable: bool) (searchable: bool) (dir_size: nat)

datatype node = File nat | Dir dir_attr "(string \<times> node) list" | Symlink path

record filesystem =
  tree :: node
  cwd :: "string list"
  content :: "nat \<Rightarrow> bytes"
  next_ino :: nat
  link_veto :: "path \<Rightarrow> path \<Rightarrow> errno option"

text \<open>
  \<open>link_veto w source target\<close> is the environment's refusal of a hard link that is
  otherwise possible: \<open>Some EXDEV\<close> when the two paths are on different devices,
  \<open>Some EPERM\<close> on a filesystem without hard links, \<open>Some EMLINK\<close>, and so on; \<open>None\<close>
  when the link is allowed.
\<close>

text \<open>
  A location is the list of names that leads from \<^verbatim>\<open>/\<close> through real directories to
  an entry; \<open>node_at\<close> is the entry at a location.
\<close>

fun node_at :: "node \<Rightarrow> string list \<Rightarrow> node option" where
  "node_at n [] = Some n"
| "node_at (Dir a es) (c # cs) = (case map_of es c of None \<Rightarrow> None | Some m \<Rightarrow> node_at m cs)"
| "node_at _ (c # cs) = None"

text \<open>
  Looking the name \<open>c\<close> up in the directory at the location \<open>cur\<close>: the directory must
  be there and must be searchable; the answer is that there is no such entry, that the
  entry is a symbolic link, or that it is a file or a directory.
\<close>

datatype looked = NoEntry | LinkTo path | Other

definition entry_kind :: "node option \<Rightarrow> looked" where
  "entry_kind v =
     (case v of
        None \<Rightarrow> NoEntry
      | Some (Symlink target) \<Rightarrow> LinkTo target
      | Some _ \<Rightarrow> Other)"

definition look :: "node \<Rightarrow> string list \<Rightarrow> string \<Rightarrow> errno + looked" where
  "look t cur c =
     (case node_at t cur of
        None \<Rightarrow> Inl ENOENT
      | Some (Dir a es) \<Rightarrow>
          if \<not> searchable a then Inl EACCES else Inr (entry_kind (map_of es c))
      | Some _ \<Rightarrow> Inl ENOTDIR)"

text \<open>
  Path resolution, name by name from the location \<open>cur\<close>. The name \<open>.\<close> stays in the
  current directory and the name \<open>..\<close> leads to the directory that holds the current
  one (\<^verbatim>\<open>/\<close> holds itself). A symbolic link in the
  middle of the path is followed: an absolute target starts at \<^verbatim>\<open>/\<close> again, a relative
  one at the directory that holds the link; each link followed uses up one unit of
  fuel, and with no fuel left the resolution fails with \<open>ELOOP\<close> (Linux follows 40
  links). At the last name, \<open>follow\<close> says whether a symbolic link is followed (as
  \<^verbatim>\<open>stat\<close> does) or is the answer itself (as \<^verbatim>\<open>lstat\<close> does), and \<open>creat\<close> says
  whether a missing entry is an error or the place where the entry will be made. The
  result is the fuel left and the location found.
\<close>

function resolve :: "bool \<Rightarrow> bool \<Rightarrow> nat \<Rightarrow> node \<Rightarrow> string list \<Rightarrow> string list \<Rightarrow> errno + nat \<times> string list" where
  "resolve follow creat fuel t cur [] = Inr (fuel, cur)"
| "resolve follow creat fuel t cur (c # cs) =
     (case look t cur c of
        Inl e \<Rightarrow> Inl e
      | Inr r \<Rightarrow>
          if c = ''.'' then resolve follow creat fuel t cur cs
          else if c = ''..'' then resolve follow creat fuel t (butlast cur) cs
          else (case r of
                  NoEntry \<Rightarrow> if cs = [] \<and> creat then Inr (fuel, cur @ [c]) else Inl ENOENT
                | Other \<Rightarrow> resolve follow creat fuel t (cur @ [c]) cs
                | LinkTo target \<Rightarrow>
                    if cs = [] \<and> \<not> follow then Inr (fuel, cur @ [c])
                    else if target = [] then Inl ENOENT
                    else (case fuel of
                            0 \<Rightarrow> Inl ELOOP
                          | Suc f \<Rightarrow>
                              if is_absolute target
                              then resolve follow creat f t [] (tl target @ cs)
                              else resolve follow creat f t cur (target @ cs))))"
  by pat_completeness auto
termination
  by (relation "inv_image (less_than <*lex*> less_than)
                  (\<lambda>(follow, creat, fuel, t, cur, q). (fuel, length q))") auto

text \<open>The names from \<^verbatim>\<open>/\<close> that a path stands for: a relative path starts at the
  working directory.\<close>

definition locate :: "filesystem \<Rightarrow> path \<Rightarrow> string list" where
  "locate w p = (case p of [] \<Rightarrow> cwd w | a # cs \<Rightarrow> if is_anchor a then cs else cwd w @ p)"

definition where_is :: "filesystem \<Rightarrow> bool \<Rightarrow> bool \<Rightarrow> path \<Rightarrow> errno + string list" where
  "where_is w follow creat p =
     (case resolve follow creat 40 (tree w) [] (locate w p) of
        Inl e \<Rightarrow> Inl e
      | Inr (fuel, loc) \<Rightarrow> Inr loc)"

definition node_of :: "filesystem \<Rightarrow> (errno + string list) \<Rightarrow> errno + node" where
  "node_of w r =
     (case r of
        Inl e \<Rightarrow> Inl e
      | Inr loc \<Rightarrow> (case node_at (tree w) loc of None \<Rightarrow> Inl ENOENT | Some n \<Rightarrow> Inr n))"

text \<open>\<^verbatim>\<open>os.lstat\<close> and \<^verbatim>\<open>os.stat\<close>: the entry that the path leads to.\<close>

definition lstat :: "filesystem \<Rightarrow> path \<Rightarrow> errno + node" where
  "lstat w p = node_of w (where_is w False False p)"

definition stat :: "filesystem \<Rightarrow> path \<Rightarrow> errno + node" where
  "stat w p = node_of w (where_is w True False p)"

text \<open>
  \<^verbatim>\<open>Path.is_dir\<close>, \<^verbatim>\<open>Path.is_symlink\<close> and \<^verbatim>\<open>Path.exists\<close>:
  \<^verbatim>\<open>
  def is_dir(self):
      try:
          return S_ISDIR(self.stat().st_mode)
      except OSError as e:
          if not _ignore_error(e):
              raise
          return False
  \<close>
  where \<^verbatim>\<open>_ignore_error\<close> holds for the errnos \<^verbatim>\<open>ENOENT\<close>, \<^verbatim>\<open>ENOTDIR\<close>,
  \<^verbatim>\<open>EBADF\<close> and \<^verbatim>\<open>ELOOP\<close>. Every other error, \<^verbatim>\<open>EACCES\<close> for one, is raised.
  \<^verbatim>\<open>is_symlink\<close> is the same over \<^verbatim>\<open>lstat\<close>.
\<close>

definition ignore_error :: "errno \<Rightarrow> bool" where
  "ignore_error e = (e = ENOENT \<or> e = ENOTDIR \<or> e = EBADF \<or> e = ELOOP)"

definition is_dir :: "filesystem \<Rightarrow> path \<Rightarrow> exn + bool" where
  "is_dir w p =
     (case stat w p of
        Inr (Dir _ _) \<Rightarrow> Inr True
      | Inr _ \<Rightarrow> Inr False
      | Inl e \<Rightarrow> if ignore_error e then Inr False else Inl (OSError e))"

definition is_symlink :: "filesystem \<Rightarrow> path \<Rightarrow> exn + bool" where
  "is_symlink w p =
     (case lstat w p of
        Inr (Symlink _) \<Rightarrow> Inr True
      | Inr _ \<Rightarrow> Inr False
      | Inl e \<Rightarrow> if ignore_error e then Inr False else Inl (OSError e))"

definition exists :: "filesystem \<Rightarrow> path \<Rightarrow> exn + bool" where
  "exists w p =
     (case stat w p of
        Inr _ \<Rightarrow> Inr True
      | Inl e \<Rightarrow> if ignore_error e then Inr False else Inl (OSError e))"

text \<open>\<^verbatim>\<open>st_size\<close> of what \<^verbatim>\<open>stat\<close> returned.\<close>

definition st_size :: "filesystem \<Rightarrow> node \<Rightarrow> nat" where
  "st_size w n =
     (case n of
        File i \<Rightarrow> length (content w i)
      | Dir a _ \<Rightarrow> dir_size a
      | Symlink target \<Rightarrow> length (str target))"

subsection \<open>Globbing\<close>

text \<open>
  \<^verbatim>\<open>path.glob("**/*")\<close>. \<^verbatim>\<open>glob\<close> first asks \<^verbatim>\<open>is_dir\<close> of the path it starts
  from, which raises what it does not ignore; a path that is not a directory yields
  nothing. The selector of \<^verbatim>\<open>**\<close> yields the directory it starts from and then,
  recursively, every real subdirectory of each directory it can list (a symbolic link to
  a directory is not entered); the selector of \<^verbatim>\<open>*\<close> yields every entry of each
  directory so found. The error of listing a directory is swallowed by both: a directory
  that is not readable, or that is below a directory that is not searchable, yields
  nothing. \<open>iterate_directories reach p d\<close> pairs each directory that \<^verbatim>\<open>**\<close> yields
  with its listing; \<open>reach\<close> says whether the directories above \<open>d\<close> are searchable.
\<close>

fun iterate_directories :: "bool \<Rightarrow> path \<Rightarrow> node \<Rightarrow> (path \<times> (string \<times> node) list) list" where
  "iterate_directories reach p (Dir a es) =
     (if reach \<and> readable a
      then (p, es) # concat (map (\<lambda>(c, n). iterate_directories (searchable a) (p @ [c]) n) es)
      else [(p, [])])"
| "iterate_directories reach p _ = []"

definition select_wildcard :: "path \<times> (string \<times> node) list \<Rightarrow> path list" where
  "select_wildcard d = (case d of (p, es) \<Rightarrow> map (\<lambda>(c, n). p @ [c]) es)"

text \<open>What the glob yields when it does not raise.\<close>

definition glob_paths :: "filesystem \<Rightarrow> path \<Rightarrow> path list" where
  "glob_paths w p =
     (case stat w p of
        Inr n \<Rightarrow> concat (map select_wildcard (iterate_directories True p n))
      | Inl _ \<Rightarrow> [])"

definition glob :: "filesystem \<Rightarrow> path \<Rightarrow> exn + path list" where
  "glob w p =
     (case is_dir w p of
        Inl e \<Rightarrow> Inl e
      | Inr b \<Rightarrow> Inr (if b then glob_paths w p else []))"

subsection \<open>Log records and the state\<close>

text \<open>The torrent descriptor: the code reads its title only.\<close>

record torrent =
  title :: string

datatype level = DEBUG | INFO | ERROR

text \<open>One constructor for each message the code formats, with the values it inserts.\<close>

datatype msg =
    FoundEntries nat
  | IsADirectory path
  | IsASymlink path
  | ReturningFiles nat
  | FileInfo path nat "string option \<times> string option"
  | ExtractingInto path path
  | FailedToExtract path exn
  | AlreadyExists path
  | FailedToHardlink path path exn
  | ImportingTorrent torrent
  | FoundDownloaded nat
  | IsAVideo path
  | IsASubtitle path
  | NeitherVideoNorSubtitle path
  | FoundForProcessing nat nat nat

datatype event =
    Log level msg
  | Glob path
  | ExtractArchive string string
  | Unlink path
  | HardlinkTo path path
  | ShutilCopy path path

record state =
  fs :: filesystem
  trace :: "event list"

definition emit :: "event \<Rightarrow> state \<Rightarrow> state" where
  "emit ev s = s\<lparr>trace := trace s @ [ev]\<rparr>"

definition log_debug :: "msg \<Rightarrow> state \<Rightarrow> state" where
  "log_debug m = emit (Log DEBUG m)"

definition log_info :: "msg \<Rightarrow> state \<Rightarrow> state" where
  "log_info m = emit (Log INFO m)"

definition log_error :: "msg \<Rightarrow> state \<Rightarrow> state" where
  "log_error m = emit (Log ERROR m)"

subsection \<open>\<^verbatim>\<open>list_files_recursively\<close>\<close>

text \<open>
  \<^verbatim>\<open>
  def list_files_recursively(path: Path = Path(".")) -> list[Path]:
      files = list(path.glob("**/*"))
      log.debug(f"Found {len(files)} entries via glob")
      valid_files = []
      for x in files:
          if x.is_dir():
              log.debug(f"'{x}' is a directory")
          elif x.is_symlink():
              log.debug(f"'{x}' is a symlink")
          else:
              valid_files.append(x)
      log.debug(f"Returning {len(valid_files)} files after filtering")
      return valid_files
  \<close>
  No statement of the function catches an exception: what \<^verbatim>\<open>glob\<close>, \<^verbatim>\<open>is_dir\<close>
  or \<^verbatim>\<open>is_symlink\<close> raises leaves the function.
\<close>

fun valid_files_loop :: "path list \<Rightarrow> path list \<Rightarrow> state \<Rightarrow> (exn + path list) \<times> state" where
  "valid_files_loop [] valid_files s = (Inr valid_files, s)"
| "valid_files_loop (x # files) valid_files s =
     (case is_dir (fs s) x of
        Inl e \<Rightarrow> (Inl e, s)
      | Inr True \<Rightarrow> valid_files_loop files valid_files (log_debug (IsADirectory x) s)
      | Inr False \<Rightarrow>
          (case is_symlink (fs s) x of
             Inl e \<Rightarrow> (Inl e, s)
           | Inr True \<Rightarrow> valid_files_loop files valid_files (log_debug (IsASymlink x) s)
           | Inr False \<Rightarrow> valid_files_loop files (valid_files @ [x]) s))"

definition list_files_recursively :: "path \<Rightarrow> state \<Rightarrow> (exn + path list) \<times> state" where
  "list_files_recursively path s =
     (let s0 = emit (Glob path) s in
      case glob (fs s0) path of
        Inl e \<Rightarrow> (Inl e, s0)
      | Inr files \<Rightarrow>
          (case valid_files_loop files [] (log_debug (FoundEntries (length files)) s0) of
             (Inl e, s2) \<Rightarrow> (Inl e, s2)
           | (Inr valid_files, s2) \<Rightarrow>
               (Inr valid_files, log_debug (ReturningFiles (length valid_files)) s2)))"

subsection \<open>The collaborators\<close>

text \<open>
  What the code calls and the repository does not hold is a parameter:
  \<^item> \<open>guess_type\<close> is \<^verbatim>\<open>mimetypes.guess_type\<close>, from the name of a file to the pair
    (type, encoding); its table is the host's (the \<^verbatim>\<open>mime.types\<close> files, the
    registry on Windows);
  \<^item> \<open>extract_archive\<close> is \<^verbatim>\<open>patoolib.extract_archive(archive, outdir=...)\<close>: it
    changes the filesystem as it likes and returns (\<open>None\<close>) or raises (\<open>Some e\<close>);
  \<^item> \<open>torrent_directory\<close> is \<^verbatim>\<open>AllEncompassingConfig().misc.torrent_directory\<close>.
\<close>

record env =
  guess_type :: "string \<Rightarrow> string option \<times> string option"
  extract_archive :: "string \<Rightarrow> string \<Rightarrow> filesystem \<Rightarrow> exn option \<times> filesystem"
  torrent_directory :: path

subsection \<open>\<^verbatim>\<open>extract_archives\<close>\<close>

text \<open>
  \<^verbatim>\<open>
  def extract_archives(files):
      archive_types = {
          "application/zip",
          "application/x-zip-compressedapplication/x-compressed",
          "application/vnd.rar",
          "application/x-7z-compressed",
          "application/x-freearc",
          "application/x-bzip",
          "application/x-bzip2",
          "application/gzip",
          "application/x-gzip",
          "application/x-tar",
      }
      for file in files:
          file_type = mimetypes.guess_type(file)
          log.debug(f"File: {file}, Size: {file.stat().st_size} bytes, Type: {file_type}")

          if file_type[0] in archive_types:
              log.info(
                  f"File {file} is a compressed file, extracting it into directory {file.parent}"
              )
              try:
                  patoolib.extract_archive(str(file), outdir=str(file.parent))
              except patoolib.util.PatoolError as e:
                  log.error(f"Failed to extract archive {file}. Error: {e}")
  \<close>
  The second element of the set is one string: the source has no comma between its two
  adjacent literals, and Python concatenates them.
\<close>

definition archive_types :: "string list" where
  "archive_types =
     [''application/zip'',
      ''application/x-zip-compressed'' @ ''application/x-compressed'',
      ''application/vnd.rar'',
      ''application/x-7z-compressed'',
      ''application/x-freearc'',
      ''application/x-bzip'',
      ''application/x-bzip2'',
      ''application/gzip'',
      ''application/x-gzip'',
      ''application/x-tar'']"

text \<open>\<^verbatim>\<open>file_type[0] in archive_types\<close>: \<^verbatim>\<open>None\<close> is in no set of strings.\<close>

definition in_archive_types :: "string option \<Rightarrow> bool" where
  "in_archive_types t = (case t of None \<Rightarrow> False | Some x \<Rightarrow> x \<in> set archive_types)"

fun extract_archives :: "env \<Rightarrow> path list \<Rightarrow> state \<Rightarrow> (exn + unit) \<times> state" where
  "extract_archives env [] s = (Inr (), s)"
| "extract_archives env (file # files) s =
     (let file_type = guess_type env (str file) in
      case stat (fs s) file of
        Inl e \<Rightarrow> (Inl (OSError e), s)
      | Inr n \<Rightarrow>
          (let s1 = log_debug (FileInfo file (st_size (fs s) n) file_type) s in
           if in_archive_types (fst file_type) then
             (let s2 = log_info (ExtractingInto file (parent file)) s1;
                  s3 = emit (ExtractArchive (str file) (str (parent file))) s2
              in case extract_archive env (str file) (str (parent file)) (fs s3) of
                   (None, w) \<Rightarrow> extract_archives env files (s3\<lparr>fs := w\<rparr>)
                 | (Some e, w) \<Rightarrow>
                     if is_PatoolError e
                     then extract_archives env files (log_error (FailedToExtract file e) (s3\<lparr>fs := w\<rparr>))
                     else (Inl e, s3\<lparr>fs := w\<rparr>))
           else extract_archives env files s1))"

subsection \<open>\<^verbatim>\<open>get_torrent_filepath\<close>\<close>

text \<open>
  \<^verbatim>\<open>
  def get_torrent_filepath(torrent: Torrent):
      return AllEncompassingConfig().misc.torrent_directory / torrent.title
  \<close>
\<close>

definition get_torrent_filepath :: "env \<Rightarrow> torrent \<Rightarrow> path" where
  "get_torrent_filepath env torrent = truediv (torrent_directory env) (title torrent)"

subsection \<open>\<^verbatim>\<open>import_file\<close>\<close>

text \<open>
  The three calls that change the filesystem. \<open>modify\<close> replaces (\<open>Some n\<close>) or removes
  (\<open>None\<close>) the entry at a location; a new entry goes to the end of its directory.
  \<open>can_write\<close> says whether the directory that holds a location allows it.
\<close>

fun modify :: "node \<Rightarrow> string list \<Rightarrow> node option \<Rightarrow> node" where
  "modify (Dir a es) [c] v =
     Dir a (case v of
              None \<Rightarrow> filter (\<lambda>(k, m). k \<noteq> c) es
            | Some n \<Rightarrow> if c \<in> fst ` set es
                        then map (\<lambda>(k, m). if k = c then (k, n) else (k, m)) es
                        else es @ [(c, n)])"
| "modify (Dir a es) (c # cs) v =
     Dir a (map (\<lambda>(k, m). if k = c then (k, modify m cs v) else (k, m)) es)"
| "modify n cs v = n"

definition can_write :: "node \<Rightarrow> string list \<Rightarrow> bool" where
  "can_write t loc =
     (loc \<noteq> [] \<and> (case node_at t (butlast loc) of Some (Dir a es) \<Rightarrow> writable a | _ \<Rightarrow> False))"

definition set_entry :: "string list \<Rightarrow> node option \<Rightarrow> filesystem \<Rightarrow> filesystem" where
  "set_entry loc v w = w\<lparr>tree := modify (tree w) loc v\<rparr>"

text \<open>Making a regular file with a new inode at a location.\<close>

definition create_file :: "string list \<Rightarrow> bytes \<Rightarrow> filesystem \<Rightarrow> filesystem" where
  "create_file loc b w =
     w\<lparr>tree := modify (tree w) loc (Some (File (next_ino w))),
       content := (content w)(next_ino w := b),
       next_ino := Suc (next_ino w)\<rparr>"

text \<open>
  \<^verbatim>\<open>path.unlink()\<close>: removes the name, from a directory that is writable; a directory
  is refused, and a symbolic link is removed itself, not its target.
\<close>

definition unlink :: "path \<Rightarrow> state \<Rightarrow> (exn + unit) \<times> state" where
  "unlink p s =
     (let s1 = emit (Unlink p) s; w = fs s1 in
      case where_is w False False p of
        Inl e \<Rightarrow> (Inl (OSError e), s1)
      | Inr loc \<Rightarrow>
          (case node_at (tree w) loc of
             None \<Rightarrow> (Inl (OSError ENOENT), s1)
           | Some (Dir _ _) \<Rightarrow> (Inl (OSError EISDIR), s1)
           | Some _ \<Rightarrow>
               if can_write (tree w) loc then (Inr (), s1\<lparr>fs := set_entry loc None w\<rparr>)
               else (Inl (OSError EACCES), s1)))"

text \<open>
  \<^verbatim>\<open>target.hardlink_to(source)\<close>, that is \<^verbatim>\<open>os.link(source, target)\<close>. The checks are
  in the order of Linux: the source is looked up (and not followed when it is a symbolic
  link), then the target must not exist (a symbolic link at the target, dangling or not,
  exists) and its directory must; then the environment may refuse; the directory of the
  target must be writable; a directory cannot be linked. A failed call leaves the
  filesystem as it was.
\<close>

definition hardlink_to :: "path \<Rightarrow> path \<Rightarrow> state \<Rightarrow> (exn + unit) \<times> state" where
  "hardlink_to target source s =
     (let s1 = emit (HardlinkTo target source) s; w = fs s1 in
      case lstat w source of
        Inl e \<Rightarrow> (Inl (OSError e), s1)
      | Inr n \<Rightarrow>
          (case where_is w False True target of
             Inl e \<Rightarrow> (Inl (OSError e), s1)
           | Inr loc \<Rightarrow>
               (case node_at (tree w) loc of
                  Some _ \<Rightarrow> (Inl (OSError EEXIST), s1)
                | None \<Rightarrow>
                    (case link_veto w source target of
                       Some e \<Rightarrow> (Inl (OSError e), s1)
                     | None \<Rightarrow>
                         if \<not> can_write (tree w) loc then (Inl (OSError EACCES), s1)
                         else (case n of
                                 Dir _ _ \<Rightarrow> (Inl (OSError EPERM), s1)
                               | _ \<Rightarrow> (Inr (), s1\<lparr>fs := set_entry loc (Some n) w\<rparr>))))))"

text \<open>
  \<^verbatim>\<open>shutil.copy(src, dst)\<close>: when \<open>dst\<close> is a directory (\<^verbatim>\<open>os.path.isdir\<close>, which
  raises nothing) the file goes into it under the name of \<open>src\<close>; source and destination
  are followed when they are symbolic links; an existing destination file is overwritten
  in place (its inode keeps its number), a missing one is created with a new inode, at
  the target of the link when the destination is a dangling symbolic link. Returns the
  destination.
\<close>

definition os_path_isdir :: "filesystem \<Rightarrow> path \<Rightarrow> bool" where
  "os_path_isdir w p = (case stat w p of Inr (Dir _ _) \<Rightarrow> True | _ \<Rightarrow> False)"

definition shutil_copy :: "path \<Rightarrow> path \<Rightarrow> state \<Rightarrow> (exn + path) \<times> state" where
  "shutil_copy src dst s =
     (let s1 = emit (ShutilCopy src dst) s; w = fs s1;
          dst' = (if os_path_isdir w dst then dst @ [name src] else dst)
      in case stat w src of
           Inl e \<Rightarrow> (Inl (OSError e), s1)
         | Inr (File i) \<Rightarrow>
             (case where_is w True True dst' of
                Inl e \<Rightarrow> (Inl (OSError e), s1)
              | Inr loc \<Rightarrow>
                  (case node_at (tree w) loc of
                     Some (File j) \<Rightarrow>
                       if i = j then (Inl SameFileError, s1)
                       else (Inr dst', s1\<lparr>fs := w\<lparr>content := (content w)(j := content w i)\<rparr>\<rparr>)
                   | Some _ \<Rightarrow> (Inl (OSError EISDIR), s1)
                   | None \<Rightarrow>
                       if can_write (tree w) loc
                       then (Inr dst', s1\<lparr>fs := create_file loc (content w i) w\<rparr>)
                       else (Inl (OSError EACCES), s1)))
         | Inr _ \<Rightarrow> (Inl (OSError EISDIR), s1))"

text \<open>
  \<^verbatim>\<open>
  def import_file(target_file: Path, source_file: Path):
      if target_file.exists():
          target_file.unlink()
      try:
          target_file.hardlink_to(source_file)
      except FileExistsError:
          log.error(f"File already exists at {target_file}. ")
      except OSError as e:
          log.error(
              f"Failed to create hardlink from {source_file} to {target_file}: {e}. "
              "Falling back to copying the file."
          )
          shutil.copy(src=source_file, dst=target_file)
  \<close>
  The first two statements are \<open>remove_existing\<close>; an exception of \<^verbatim>\<open>exists\<close> or
  of \<^verbatim>\<open>unlink\<close> is outside the \<^verbatim>\<open>try\<close> and leaves the function.
\<close>

definition remove_existing :: "path \<Rightarrow> state \<Rightarrow> (exn + unit) \<times> state" where
  "remove_existing target_file s =
     (case exists (fs s) target_file of
        Inl e \<Rightarrow> (Inl e, s)
      | Inr b \<Rightarrow> if b then unlink target_file s else (Inr (), s))"

definition import_file :: "path \<Rightarrow> path \<Rightarrow> state \<Rightarrow> (exn + unit) \<times> state" where
  "import_file target_file source_file s =
     (case remove_existing target_file s of
        (Inl e, s1) \<Rightarrow> (Inl e, s1)
      | (Inr _, s1) \<Rightarrow>
          (case hardlink_to target_file source_file s1 of
             (Inr _, s2) \<Rightarrow> (Inr (), s2)
           | (Inl e, s2) \<Rightarrow>
               if is_FileExistsError e then (Inr (), log_error (AlreadyExists target_file) s2)
               else if is_OSError e then
                 (case shutil_copy source_file target_file
                         (log_error (FailedToHardlink source_file target_file e) s2) of
                    (Inl e', s3) \<Rightarrow> (Inl e', s3)
                  | (Inr _, s3) \<Rightarrow> (Inr (), s3))
               else (Inl e, s2)))"

subsection \<open>\<^verbatim>\<open>import_torrent\<close>\<close>

text \<open>
  \<^verbatim>\<open>
  def import_torrent(torrent: Torrent) -> (list[Path], list[Path], list[Path]):
      log.info(f"Importing torrent {torrent}")
      all_files = list_files_recursively(path=get_torrent_filepath(torrent=torrent))
      log.debug(f"Found {len(all_files)} files downloaded by the torrent")
      extract_archives(all_files)
      all_files = list_files_recursively(path=get_torrent_filepath(torrent=torrent))

      video_files = []
      subtitle_files = []
      for file in all_files:
          file_type, _ = mimetypes.guess_type(str(file))
          if file_type is not None:
              if file_type.startswith("video"):
                  video_files.append(file)
                  log.debug(f"File is a video, it will be imported: {file}")
              elif file_type.startswith("text") and Path(file).suffix == ".srt":
                  subtitle_files.append(file)
                  log.debug(f"File is a subtitle, it will be imported: {file}")
              else:
                  log.debug(
                      f"File is neither a video nor a subtitle, will not be imported: {file}"
                  )

      log.info(
          f"Found {len(all_files)} files ({len(video_files)} video files, {len(subtitle_files)} subtitle files) for further processing."
      )
      return video_files, subtitle_files, all_files
  \<close>
  The loop over \<^verbatim>\<open>all_files\<close> is \<open>classify\<close>.
\<close>

fun classify :: "env \<Rightarrow> path list \<Rightarrow> path list \<Rightarrow> path list \<Rightarrow> state \<Rightarrow> (path list \<times> path list) \<times> state" where
  "classify env [] video_files subtitle_files s = ((video_files, subtitle_files), s)"
| "classify env (file # all_files) video_files subtitle_files s =
     (case fst (guess_type env (str file)) of
        None \<Rightarrow> classify env all_files video_files subtitle_files s
      | Some file_type \<Rightarrow>
          if prefix ''video'' file_type then
            classify env all_files (video_files @ [file]) subtitle_files (log_debug (IsAVideo file) s)
          else if prefix ''text'' file_type \<and> path_suffix file = ''.srt'' then
            classify env all_files video_files (subtitle_files @ [file]) (log_debug (IsASubtitle file) s)
          else
            classify env all_files video_files subtitle_files (log_debug (NeitherVideoNorSubtitle file) s))"

definition import_torrent :: "env \<Rightarrow> torrent \<Rightarrow> state \<Rightarrow> (exn + path list \<times> path list \<times> path list) \<times> state" where
  "import_torrent env torrent s =
     (case list_files_recursively (get_torrent_filepath env torrent) (log_info (ImportingTorrent torrent) s) of
        (Inl e, s1) \<Rightarrow> (Inl e, s1)
      | (Inr all_files, s1) \<Rightarrow>
          (case extract_archives env all_files (log_debug (FoundDownloaded (length all_files)) s1) of
             (Inl e, s2) \<Rightarrow> (Inl e, s2)
           | (Inr _, s2) \<Rightarrow>
               (case list_files_recursively (get_torrent_filepath env torrent) s2 of
                  (Inl e, s3) \<Rightarrow> (Inl e, s3)
                | (Inr all_files', s3) \<Rightarrow>
                    (case classify env all_files' [] [] s3 of
                       ((video_files, subtitle_files), s4) \<Rightarrow>
                         (Inr (video_files, subtitle_files, all_files'),
                          log_info (FoundForProcessing (length all_files') (length video_files)
                                      (length subtitle_files)) s4)))))"

section \<open>Specification\<close>

subsection \<open>Well-formed trees and the entries of a tree\<close>

text \<open>
  A name of an entry is not empty, holds no slash and is neither \<open>''.''\<close> nor
  \<open>''..''\<close>; the names of one directory differ from each other.
\<close>

definition valid_name :: "string \<Rightarrow> bool" where
  "valid_name c = (c \<noteq> [] \<and> CHR ''/'' \<notin> set c \<and> c \<noteq> ''.'' \<and> c \<noteq> ''..'')"

fun wf_node :: "node \<Rightarrow> bool" where
  "wf_node (Dir a es) = (distinct (map fst es) \<and> (\<forall>(c, n) \<in> set es. valid_name c \<and> wf_node n))"
| "wf_node _ = True"

text \<open>
  \<open>entry_at T rel n\<close>: below the directory \<open>T\<close>, the names \<open>rel\<close> lead to the entry
  \<open>n\<close> through real directories, of which each is readable and each but the last is
  searchable: \<open>n\<close> is an entry that a listing of the tree shows. Nothing is reached
  through a symbolic link or through a directory that cannot be listed.
\<close>

inductive entry_at :: "node \<Rightarrow> string list \<Rightarrow> node \<Rightarrow> bool" where
  here: "readable a \<Longrightarrow> (c, n) \<in> set es \<Longrightarrow> entry_at (Dir a es) [c] n"
| below: "readable a \<Longrightarrow> searchable a \<Longrightarrow> (c, d) \<in> set es \<Longrightarrow> entry_at d cs n
          \<Longrightarrow> entry_at (Dir a es) (c # cs) n"

code_pred entry_at .

subsection \<open>The components of the specification\<close>

text \<open>
  The scan of the specification: every entry of the recursive enumeration that is neither
  a directory nor a symbolic link.
\<close>

definition spec_scan :: "filesystem \<Rightarrow> path \<Rightarrow> path list" where
  "spec_scan w root =
     filter (\<lambda>x. is_dir w x = Inr False \<and> is_symlink w x = Inr False) (glob_paths w root)"

text \<open>A file is an archive when its sniffed type is in the set of archive types.\<close>

definition spec_is_archive :: "env \<Rightarrow> path \<Rightarrow> bool" where
  "spec_is_archive env file = in_archive_types (fst (guess_type env (str file)))"

text \<open>
  The rules of the classifier: a file whose type is detected and begins with \<open>video\<close> is
  a video; otherwise a file whose type begins with \<open>text\<close> and whose suffix is
  \<open>.srt\<close> is a subtitle; every other file is neither.
\<close>

definition spec_is_video :: "env \<Rightarrow> path \<Rightarrow> bool" where
  "spec_is_video env file =
     (case fst (guess_type env (str file)) of None \<Rightarrow> False | Some t \<Rightarrow> prefix ''video'' t)"

definition spec_is_subtitle :: "env \<Rightarrow> path \<Rightarrow> bool" where
  "spec_is_subtitle env file =
     (case fst (guess_type env (str file)) of
        None \<Rightarrow> False
      | Some t \<Rightarrow> \<not> prefix ''video'' t \<and> prefix ''text'' t \<and> path_suffix file = ''.srt'')"

definition spec_classify_log :: "env \<Rightarrow> path \<Rightarrow> event list" where
  "spec_classify_log env file =
     (case fst (guess_type env (str file)) of
        None \<Rightarrow> []
      | Some t \<Rightarrow> [Log DEBUG (if spec_is_video env file then IsAVideo file
                               else if spec_is_subtitle env file then IsASubtitle file
                               else NeitherVideoNorSubtitle file)])"

text \<open>The major category of a type is its text before the slash.\<close>

definition major_category :: "string \<Rightarrow> string" where
  "major_category t = takeWhile (\<lambda>c. c \<noteq> CHR ''/'') t"

definition top_level_types :: "string list" where
  "top_level_types =
     [''application'', ''audio'', ''example'', ''font'', ''haptics'', ''image'', ''message'',
      ''model'', ''multipart'', ''text'', ''video'']"

text \<open>The calls of a trace: its events that are not log records.\<close>

definition is_call :: "event \<Rightarrow> bool" where
  "is_call ev = (case ev of Log _ _ \<Rightarrow> False | _ \<Rightarrow> True)"

definition calls :: "event list \<Rightarrow> event list" where
  "calls tr = filter is_call tr"

subsection \<open>An example host\<close>

text \<open>
  A download directory \<^verbatim>\<open>/downloads/show\<close> with a video, a subtitle, two archives, a
  subdirectory, a symbolic link to a directory, a dangling symbolic link and a directory
  that cannot be listed; a second download directory; a directory \<^verbatim>\<open>/downloads/private\<close>
  that can be listed and cannot be searched; and a media library.
\<close>

definition rwx :: dir_attr where
  "rwx = DirAttr True True True 4096"

definition example_show :: node where
  "example_show =
     Dir rwx
       [(''ep1.mkv'', File 1),
        (''ep1.srt'', File 2),
        (''pack.zip'', File 3),
        (''bad.rar'', File 4),
        (''sub'', Dir rwx [(''notes.txt'', File 6)]),
        (''ln'', Symlink [''/'', ''media'']),
        (''broken'', Symlink [''nowhere'']),
        (''locked'', Dir (DirAttr False True True 4096) [(''hid.mkv'', File 8)])]"

definition example_private :: node where
  "example_private = Dir (DirAttr True True False 4096) [(''secret.mkv'', File 7)]"

definition example_tree :: node where
  "example_tree =
     Dir rwx
       [(''downloads'', Dir rwx
          [(''show'', example_show),
           (''other'', Dir rwx [(''odd.7z'', File 5)]),
           (''private'', example_private)]),
        (''media'', Dir rwx [(''old.mkv'', File 9), (''dangle'', Symlink [''/'', ''gone'', ''x''])])]"

definition example_fs :: filesystem where
  "example_fs =
     \<lparr>tree = example_tree, cwd = [],
      content = (\<lambda>i. if i = 1 then [1, 2, 3] else if i = 9 then [9] else []),
      next_ino = 20, link_veto = (\<lambda>source target. None)\<rparr>"

definition example_state :: state where
  "example_state = \<lparr>fs = example_fs, trace = []\<rparr>"

text \<open>The same host with the media library on another device: every hard link is
  refused with \<open>EXDEV\<close>.\<close>

definition example_state_xdev :: state where
  "example_state_xdev = \<lparr>fs = example_fs\<lparr>link_veto := (\<lambda>source target. Some EXDEV)\<rparr>, trace = []\<rparr>"

text \<open>A table of types by suffix, as a Linux host has it.\<close>

definition example_types :: "(string \<times> string) list" where
  "example_types =
     [(''.mkv'', ''video/x-matroska''), (''.mp4'', ''video/mp4''), (''.srt'', ''text/plain''),
      (''.txt'', ''text/plain''), (''.zip'', ''application/zip''), (''.rar'', ''application/vnd.rar''),
      (''.7z'', ''application/x-7z-compressed'')]"

definition example_guess_type :: "string \<Rightarrow> string option \<times> string option" where
  "example_guess_type s = (map_of example_types (path_suffix (parse_path s)), None)"

text \<open>The same table on a Windows host, whose registry gives \<^verbatim>\<open>.zip\<close> the type
  \<^verbatim>\<open>application/x-zip-compressed\<close>.\<close>

definition registry_guess_type :: "string \<Rightarrow> string option \<times> string option" where
  "registry_guess_type s =
     (if path_suffix (parse_path s) = ''.zip'' then (Some ''application/x-zip-compressed'', None)
      else example_guess_type s)"

text \<open>
  An extraction tool: \<^verbatim>\<open>pack.zip\<close> holds a video and a further archive,
  \<^verbatim>\<open>bad.rar\<close> is corrupt, and \<^verbatim>\<open>odd.7z\<close> makes the tool run out of memory.
\<close>

definition example_extract_archive :: "string \<Rightarrow> string \<Rightarrow> filesystem \<Rightarrow> exn option \<times> filesystem" where
  "example_extract_archive archive outdir w =
     (if archive = ''/downloads/show/pack.zip'' then
        (None, create_file (locate w (parse_path outdir @ [''inner.zip''])) [80, 75]
                 (create_file (locate w (parse_path outdir @ [''extra.mp4''])) [0, 0, 0, 24] w))
      else if archive = ''/downloads/show/bad.rar'' then (Some (PatoolError ''corrupt''), w)
      else if archive = ''/downloads/other/odd.7z'' then (Some (Exception ''MemoryError''), w)
      else (None, w))"

definition example_env :: env where
  "example_env =
     \<lparr>guess_type = example_guess_type, extract_archive = example_extract_archive,
      torrent_directory = [''/'', ''downloads'']\<rparr>"

definition example_env_registry :: env where
  "example_env_registry = example_env\<lparr>guess_type := registry_guess_type\<rparr>"

definition example_torrent :: torrent where
  "example_torrent = \<lparr>title = ''show''\<rparr>"

section \<open>Proofs\<close>

subsection \<open>The state and the trace\<close>

lemma fs_emit [simp]: "fs (emit ev s) = fs s"
  by (simp add: emit_def)

lemma trace_emit [simp]: "trace (emit ev s) = trace s @ [ev]"
  by (simp add: emit_def)

lemma fs_log [simp]:
  "fs (log_debug m s) = fs s" "fs (log_info m s) = fs s" "fs (log_error m s) = fs s"
  by (simp_all add: log_debug_def log_info_def log_error_def)

lemma trace_log [simp]:
  "trace (log_debug m s) = trace s @ [Log DEBUG m]"
  "trace (log_info m s) = trace s @ [Log INFO m]"
  "trace (log_error m s) = trace s @ [Log ERROR m]"
  by (simp_all add: log_debug_def log_info_def log_error_def)

lemma calls_simps [simp]:
  "calls [] = []"
  "calls (tr @ tr') = calls tr @ calls tr'"
  "calls (Log l m # tr) = calls tr"
  "calls (ExtractArchive a d # tr) = ExtractArchive a d # calls tr"
  "calls (Glob p # tr) = Glob p # calls tr"
  by (simp_all add: calls_def is_call_def)

lemmas path_defs = is_anchor_def is_absolute_def str_def parent_def name_def path_suffix_def
  anchor_of_def parse_path_def truediv_def

lemmas fs_defs = locate_def lstat_def stat_def where_is_def node_of_def look_def entry_kind_def
  is_dir_def is_symlink_def exists_def ignore_error_def st_size_def select_wildcard_def glob_def
  glob_paths_def set_entry_def create_file_def can_write_def os_path_isdir_def

lemmas state_defs = emit_def log_debug_def log_info_def log_error_def

lemmas run_defs = list_files_recursively_def get_torrent_filepath_def in_archive_types_def
  archive_types_def is_PatoolError_def is_OSError_def is_FileExistsError_def Let_def
  remove_existing_def unlink_def hardlink_to_def shutil_copy_def import_file_def import_torrent_def

lemmas example_defs = rwx_def example_show_def example_private_def example_tree_def example_fs_def
  example_state_def example_state_xdev_def example_types_def example_guess_type_def
  registry_guess_type_def example_extract_archive_def example_env_def example_env_registry_def
  example_torrent_def

subsection \<open>The scan\<close>

text \<open>The tests raise an \<open>OSError\<close> that they do not ignore, and nothing else.\<close>

lemma is_dir_raises: "is_dir w x = Inl ex \<longleftrightarrow> (\<exists>e. stat w x = Inl e \<and> \<not> ignore_error e \<and> ex = OSError e)"
  by (auto simp: is_dir_def split: sum.splits node.splits)

lemma is_symlink_raises:
  "is_symlink w x = Inl ex \<longleftrightarrow> (\<exists>e. lstat w x = Inl e \<and> \<not> ignore_error e \<and> ex = OSError e)"
  by (auto simp: is_symlink_def split: sum.splits node.splits)

text \<open>The loop of the scan: it only logs, and it stops at the first test that raises.\<close>

lemma valid_files_loop_frame:
  "valid_files_loop files acc s = (r, s') \<Longrightarrow> fs s' = fs s \<and> calls (trace s') = calls (trace s)"
  by (induction files arbitrary: acc s) (auto split: sum.splits bool.splits)

lemma valid_files_loop_returns:
  "valid_files_loop files acc s = (Inr out, s') \<Longrightarrow>
     out = acc @ filter (\<lambda>x. is_dir (fs s) x = Inr False \<and> is_symlink (fs s) x = Inr False) files"
proof (induction files arbitrary: acc s)
  case Nil
  then show ?case by simp
next
  case (Cons x rest)
  from Cons.prems show ?case
    by (auto split: sum.splits bool.splits dest!: Cons.IH)
qed

lemma valid_files_loop_ok:
  assumes "\<forall>x \<in> set files. \<forall>e. stat (fs s) x = Inl e \<or> lstat (fs s) x = Inl e \<longrightarrow> ignore_error e"
  shows "\<exists>out s'. valid_files_loop files acc s = (Inr out, s')"
  using assms
proof (induction files arbitrary: acc s)
  case Nil
  then show ?case by simp
next
  case (Cons x rest)
  have d: "\<exists>b. is_dir (fs s) x = Inr b"
    using Cons.prems by (cases "is_dir (fs s) x") (auto simp: is_dir_raises)
  have l: "\<exists>b. is_symlink (fs s) x = Inr b"
    using Cons.prems by (cases "is_symlink (fs s) x") (auto simp: is_symlink_raises)
  have rest: "\<exists>out s'. valid_files_loop rest acc' t = (Inr out, s')" if "fs t = fs s" for acc' t
    using Cons.IH [of t acc'] Cons.prems that by simp
  from d l show ?case
    by (auto split: sum.splits bool.splits intro!: rest)
qed

lemma valid_files_loop_raises:
  assumes "x \<in> set files" and "stat (fs s) x = Inl e" and "\<not> ignore_error e"
  shows "\<exists>e' s'. valid_files_loop files acc s = (Inl (OSError e'), s') \<and> \<not> ignore_error e'"
  using assms
proof (induction files arbitrary: acc s)
  case Nil
  then show ?case by simp
next
  case (Cons y rest)
  show ?case
  proof (cases "is_dir (fs s) y")
    case (Inl ex)
    then obtain e' where "ex = OSError e'" "\<not> ignore_error e'" by (auto simp: is_dir_raises)
    with Inl show ?thesis by simp
  next
    case (Inr b)
    with Cons.prems have xy: "x \<noteq> y" by (auto simp: is_dir_def)
    with Cons.prems have x: "x \<in> set rest" by simp
    have rest: "\<exists>e'. (\<exists>s'. valid_files_loop rest acc' t = (Inl (OSError e'), s')) \<and> \<not> ignore_error e'"
      if "fs t = fs s" for acc' t
      using Cons.IH [of t acc'] x Cons.prems(2,3) that by auto
    show ?thesis
    proof (cases b)
      case True
      with Inr show ?thesis by (simp add: rest)
    next
      case False
      show ?thesis
      proof (cases "is_symlink (fs s) y")
        case (Inl ex)
        then obtain e' where "ex = OSError e'" "\<not> ignore_error e'" by (auto simp: is_symlink_raises)
        with Inl Inr False show ?thesis by simp
      next
        case (Inr b')
        with \<open>is_dir (fs s) y = Inr b\<close> False show ?thesis by (cases b') (simp_all add: rest)
      qed
    qed
  qed
qed

text \<open>
  The entries that the glob yields are the entries of the tree, and on a well-formed tree
  it yields each of them once.
\<close>

lemma entry_at_Dir:
  "entry_at (Dir a es) rel m \<longleftrightarrow>
     readable a \<and> ((\<exists>c. rel = [c] \<and> (c, m) \<in> set es)
       \<or> (searchable a \<and> (\<exists>c cs d. rel = c # cs \<and> (c, d) \<in> set es \<and> entry_at d cs m)))"
  by (subst entry_at.simps) auto

lemma entry_at_nondir [simp]:
  "\<not> entry_at (File i) rel m" "\<not> entry_at (Symlink tg) rel m"
  by (auto elim: entry_at.cases)

lemma entry_at_nonempty: "entry_at N rel m \<Longrightarrow> rel \<noteq> []"
  by (induction rule: entry_at.induct) auto

lemma concat_map_concat:
  "concat (map f (concat (map h es))) = concat (map (\<lambda>e. concat (map f (h e))) es)"
  by (induction es) auto

lemma glob_entries:
  "x \<in> set (concat (map select_wildcard (iterate_directories reach p N))) \<longleftrightarrow>
     reach \<and> (\<exists>rel m. x = p @ rel \<and> entry_at N rel m)"
proof (induction reach p N arbitrary: x rule: iterate_directories.induct)
  case (1 reach p a es)
  define G where "G = (\<lambda>b q n. set (concat (map select_wildcard (iterate_directories b q n))))"
  show ?case
  proof (cases "reach \<and> readable a")
    case False
    then show ?thesis by (auto simp: select_wildcard_def entry_at_Dir)
  next
    case True
    have ih: "x \<in> G (searchable a) (p @ [c]) d \<longleftrightarrow>
                searchable a \<and> (\<exists>rel m. x = (p @ [c]) @ rel \<and> entry_at d rel m)"
      if "(c, d) \<in> set es" for c d
      unfolding G_def using "1.IH" [OF True that refl] .
    have "x \<in> set (concat (map select_wildcard (concat (map (\<lambda>(c, n). iterate_directories (searchable a) (p @ [c]) n) es))))
          \<longleftrightarrow> (\<exists>c d. (c, d) \<in> set es \<and> x \<in> G (searchable a) (p @ [c]) d)"
      unfolding G_def by (simp add: concat_map_concat) fastforce
    also have "\<dots> \<longleftrightarrow> (\<exists>c d. (c, d) \<in> set es \<and> searchable a \<and> (\<exists>rel m. x = (p @ [c]) @ rel \<and> entry_at d rel m))"
      using ih by blast
    finally have sub: "x \<in> set (concat (map select_wildcard (concat (map (\<lambda>(c, n). iterate_directories (searchable a) (p @ [c]) n) es))))
          \<longleftrightarrow> (searchable a \<and> (\<exists>c d rel m. (c, d) \<in> set es \<and> x = p @ c # rel \<and> entry_at d rel m))"
      by auto
    have top: "x \<in> set (select_wildcard (p, es)) \<longleftrightarrow> (\<exists>c m. (c, m) \<in> set es \<and> x = p @ [c])"
      by (auto simp: select_wildcard_def)
    have "x \<in> set (concat (map select_wildcard (iterate_directories reach p (Dir a es)))) \<longleftrightarrow>
          x \<in> set (select_wildcard (p, es)) \<or>
          x \<in> set (concat (map select_wildcard (concat (map (\<lambda>(c, n). iterate_directories (searchable a) (p @ [c]) n) es))))"
      using True by simp
    also have "\<dots> \<longleftrightarrow> reach \<and> (\<exists>rel m. x = p @ rel \<and> entry_at (Dir a es) rel m)"
      unfolding sub top using True by (subst entry_at_Dir) blast
    finally show ?thesis .
  qed
qed simp_all

lemma glob_paths_iff:
  "x \<in> set (glob_paths w root) \<longleftrightarrow> (\<exists>T rel m. stat w root = Inr T \<and> x = root @ rel \<and> entry_at T rel m)"
proof (cases "stat w root")
  case (Inl e)
  then show ?thesis by (simp add: glob_paths_def)
next
  case (Inr T)
  have "x \<in> set (glob_paths w root) \<longleftrightarrow>
        x \<in> set (concat (map select_wildcard (iterate_directories True root T)))"
    unfolding glob_paths_def Inr by simp
  then show ?thesis unfolding glob_entries using Inr by simp
qed

lemma glob_paths_unlistable:
  "stat w root = Inl e \<or> (stat w root = Inr (Dir a es) \<and> \<not> readable a) \<Longrightarrow> glob_paths w root = []"
  by (auto simp: glob_paths_def select_wildcard_def)

lemma distinct_concat_keyed:
  assumes "distinct (map fst es)"
    and "\<And>c n. (c, n) \<in> set es \<Longrightarrow> distinct (g (c, n))"
    and "\<And>c n x. (c, n) \<in> set es \<Longrightarrow> x \<in> set (g (c, n)) \<Longrightarrow> \<exists>rel. x = p @ c # rel"
  shows "distinct (concat (map g es))"
  using assms
proof (induction es)
  case Nil
  then show ?case by simp
next
  case (Cons e es)
  obtain c n where e: "e = (c, n)" by (cases e)
  have rest: "distinct (concat (map g es))"
  proof (rule Cons.IH)
    show "distinct (map fst es)" using Cons.prems(1) by simp
  next
    fix c n assume "(c, n) \<in> set es"
    then show "distinct (g (c, n))" using Cons.prems(2) [of c n] by simp
  next
    fix c n x assume "(c, n) \<in> set es" "x \<in> set (g (c, n))"
    then show "\<exists>rel. x = p @ c # rel" using Cons.prems(3) [of c n x] by simp
  qed
  have disj: "set (g (c, n)) \<inter> set (concat (map g es)) = {}"
  proof (rule ccontr)
    assume "set (g (c, n)) \<inter> set (concat (map g es)) \<noteq> {}"
    then obtain x c' n' where x: "x \<in> set (g (c, n))" "(c', n') \<in> set es" "x \<in> set (g (c', n'))"
      by fastforce
    from Cons.prems(3) [of c n x] x(1) e obtain rel where "x = p @ c # rel" by auto
    moreover from Cons.prems(3) [of c' n' x] x(2,3) obtain rel' where "x = p @ c' # rel'" by auto
    ultimately have "c = c'" by simp
    with x(2) Cons.prems(1) e show False by (force simp: image_iff)
  qed
  from Cons.prems(2) [of c n] e have "distinct (g (c, n))" by simp
  with rest disj show ?case by (simp add: e)
qed

lemma glob_distinct:
  "wf_node N \<Longrightarrow> distinct (concat (map select_wildcard (iterate_directories reach p N)))"
proof (induction reach p N rule: iterate_directories.induct)
  case (1 reach p a es)
  show ?case
  proof (cases "reach \<and> readable a")
    case False
    then have "iterate_directories reach p (Dir a es) = [(p, [])]" by auto
    then show ?thesis by (simp add: select_wildcard_def)
  next
    case True
    let ?g = "\<lambda>(c, n). concat (map select_wildcard (iterate_directories (searchable a) (p @ [c]) n))"
    let ?L1 = "map (\<lambda>(c, n). p @ [c]) es"
    let ?L2 = "concat (map ?g es)"
    from "1.prems" have dk: "distinct (map fst es)" and wfs: "\<And>c n. (c, n) \<in> set es \<Longrightarrow> wf_node n"
      by auto
    have eq: "concat (map select_wildcard (iterate_directories reach p (Dir a es))) = ?L1 @ ?L2"
      using True by (simp add: concat_map_concat) (simp add: select_wildcard_def case_prod_unfold)
    have "?L1 = map (\<lambda>c. p @ [c]) (map fst es)" by (simp add: case_prod_unfold comp_def)
    then have d1: "distinct ?L1"
      using dk by (simp add: distinct_map inj_on_def del: map_map)
    have d2: "distinct ?L2"
    proof (rule distinct_concat_keyed [OF dk, where p = p])
      fix c n assume "(c, n) \<in> set es"
      then show "distinct (?g (c, n))" using "1.IH" [OF True _ refl] wfs by simp
    next
      fix c n x assume "(c, n) \<in> set es" "x \<in> set (?g (c, n))"
      then show "\<exists>rel. x = p @ c # rel" using glob_entries [of x "searchable a" "p @ [c]" n] by auto
    qed
    have "set ?L1 \<inter> set ?L2 = {}"
    proof (rule ccontr)
      assume "set ?L1 \<inter> set ?L2 \<noteq> {}"
      then obtain x c n where x: "x \<in> set ?L1" "(c, n) \<in> set es" "x \<in> set (?g (c, n))"
        by fastforce
      from x(3) obtain rel m where "x = (p @ [c]) @ rel" "entry_at n rel m"
        using glob_entries [of x "searchable a" "p @ [c]" n] by auto
      moreover from this have "rel \<noteq> []" using entry_at_nonempty by blast
      moreover from x(1) obtain c' where "x = p @ [c']" by auto
      ultimately show False by simp
    qed
    with d1 d2 show ?thesis unfolding eq by simp
  qed
qed simp_all

lemma spec_scan_distinct:
  assumes "stat w root = Inr T" and "wf_node T"
  shows "distinct (spec_scan w root)"
  using glob_distinct [OF assms(2), of True root] assms(1)
  by (simp add: spec_scan_def glob_paths_def)

subsection \<open>Path resolution\<close>

text \<open>
  The resolution of a path under a root goes through the root; the path to an entry of
  the tree under the root leads to that entry, unless a directory on the way cannot be
  searched.
\<close>

lemma node_at_append:
  "node_at t (a @ b) = (case node_at t a of None \<Rightarrow> None | Some n \<Rightarrow> node_at n b)"
proof (induction a arbitrary: t)
  case Nil
  show ?case by simp
next
  case (Cons c cs)
  show ?case
  proof (cases t)
    case (Dir at es)
    then show ?thesis by (simp add: Cons.IH split: option.splits)
  qed simp_all
qed

lemma resolve_append:
  "r \<noteq> [] \<Longrightarrow>
     resolve fo cr f t cur (q @ r) =
       (case resolve True False f t cur q of
          Inl e \<Rightarrow> Inl e
        | Inr (f', cur') \<Rightarrow> resolve fo cr f' t cur' r)"
proof (induction True False f t cur q rule: resolve.induct)
  case (1 fuel t cur)
  show ?case by simp
next
  case (2 fuel t cur c cs)
  show ?case
  proof (cases "look t cur c")
    case (Inl e)
    then show ?thesis by simp
  next
    case (Inr k)
    show ?thesis
    proof (cases "c = ''.'' \<or> c = ''..''")
      case True
      with Inr "2.hyps" "2.prems" show ?thesis by auto
    next
      case False
      show ?thesis
      proof (cases k)
        case NoEntry
        with Inr False "2.prems" show ?thesis by simp
      next
        case Other
        with Inr False "2.hyps" "2.prems" show ?thesis by simp
      next
        case (LinkTo target)
        show ?thesis
        proof (cases "target = []")
          case True
          with Inr False LinkTo "2.prems" show ?thesis by simp
        next
          case ne: False
          show ?thesis
          proof (cases fuel)
            case 0
            with Inr False LinkTo ne "2.prems" show ?thesis by simp
          next
            case (Suc f')
            show ?thesis
            proof (cases "is_absolute target")
              case True
              with Inr False LinkTo ne Suc "2.prems" "2.hyps"
              show ?thesis by simp
            next
              case na: False
              with Inr False LinkTo ne Suc "2.prems" "2.hyps"
              show ?thesis by simp
            qed
          qed
        qed
      qed
    qed
  qed
qed

lemma valid_name_not_anchor: "valid_name c \<Longrightarrow> \<not> is_anchor c"
  by (auto simp: valid_name_def is_anchor_def)

lemma locate_append:
  "rel \<noteq> [] \<Longrightarrow> \<not> is_anchor (hd rel) \<Longrightarrow> locate w (root @ rel) = locate w root @ rel"
  by (cases root; cases rel) (auto simp: locate_def)

lemma entry_at_head:
  "entry_at N rel m \<Longrightarrow> wf_node N \<Longrightarrow> rel \<noteq> [] \<and> valid_name (hd rel)"
  by (induction rule: entry_at.induct) auto

lemma entry_resolve:
  assumes "entry_at T rel m" and "wf_node T" and "node_at t loc = Some T"
  shows "node_at t (loc @ rel) = Some m \<and>
         ((\<forall>fo cr. resolve fo cr f t loc rel = Inl EACCES) \<or>
          (\<forall>fo cr. (fo \<longrightarrow> (\<forall>tg. m \<noteq> Symlink tg)) \<longrightarrow> resolve fo cr f t loc rel = Inr (f, loc @ rel)))"
  using assms
proof (induction arbitrary: loc rule: entry_at.induct)
  case (here a c n es)
  then have m: "map_of es c = Some n" and c: "c \<noteq> ''..''" "c \<noteq> ''.''"
    by (auto simp: valid_name_def)
  have at: "node_at t (loc @ [c]) = Some n"
    using here.prems(2) m by (simp add: node_at_append)
  show ?case
  proof (cases "searchable a")
    case False
    with here.prems(2) at show ?thesis by (simp add: look_def entry_kind_def)
  next
    case True
    have "resolve fo cr f t loc [c] = Inr (f, loc @ [c])" if "fo \<longrightarrow> (\<forall>tg. n \<noteq> Symlink tg)" for fo cr
      using that here.prems(2) m c True by (cases n) (auto simp: look_def entry_kind_def)
    with at show ?thesis by blast
  qed
next
  case (below a c d es cs n)
  then have m: "map_of es c = Some d" and c: "c \<noteq> ''..''" "c \<noteq> ''.''" and wd: "wf_node d"
    by (auto simp: valid_name_def)
  from below.hyps(4) obtain a' es' where d: "d = Dir a' es'"
    by (cases d) auto
  have at: "node_at t (loc @ [c]) = Some d"
    using below.prems(2) m by (simp add: node_at_append)
  have step: "resolve fo cr f t loc (c # cs) = resolve fo cr f t (loc @ [c]) cs" for fo cr
    using below.prems(2) below.hyps(2) m c d by (simp add: look_def entry_kind_def)
  from below.IH [OF wd at] show ?case
    by (simp add: step del: resolve.simps)
qed

lemma stat_location:
  assumes "stat w root = Inr T"
  shows "\<exists>f loc. resolve True False 40 (tree w) [] (locate w root) = Inr (f, loc)
           \<and> node_at (tree w) loc = Some T"
  using assms
  by (auto simp: stat_def node_of_def where_is_def split: sum.splits option.splits)

lemma under_root:
  assumes "stat w root = Inr T" and "wf_node T" and "entry_at T rel m"
  shows "(stat w (root @ rel) = Inl EACCES \<and> lstat w (root @ rel) = Inl EACCES)
       \<or> (lstat w (root @ rel) = Inr m \<and> ((\<forall>tg. m \<noteq> Symlink tg) \<longrightarrow> stat w (root @ rel) = Inr m))"
proof -
  from stat_location [OF assms(1)] obtain f loc
    where r: "resolve True False 40 (tree w) [] (locate w root) = Inr (f, loc)"
      and T: "node_at (tree w) loc = Some T" by blast
  from entry_at_head [OF assms(3,2)] have rel: "rel \<noteq> []" "\<not> is_anchor (hd rel)"
    by (auto dest: valid_name_not_anchor)
  have w: "resolve fo cr 40 (tree w) [] (locate w (root @ rel)) = resolve fo cr f (tree w) loc rel" for fo cr
    by (simp add: locate_append [OF rel] resolve_append [OF rel(1)] r)
  from entry_resolve [OF assms(3,2) T, of f]
  have at: "node_at (tree w) (loc @ rel) = Some m"
    and alt: "(\<forall>fo cr. resolve fo cr f (tree w) loc rel = Inl EACCES) \<or>
          (\<forall>fo cr. (fo \<longrightarrow> (\<forall>tg. m \<noteq> Symlink tg)) \<longrightarrow> resolve fo cr f (tree w) loc rel = Inr (f, loc @ rel))"
    by blast+
  from alt show ?thesis
  proof
    assume "\<forall>fo cr. resolve fo cr f (tree w) loc rel = Inl EACCES"
    then show ?thesis by (simp add: stat_def lstat_def where_is_def node_of_def w)
  next
    assume a: "\<forall>fo cr. (fo \<longrightarrow> (\<forall>tg. m \<noteq> Symlink tg)) \<longrightarrow> resolve fo cr f (tree w) loc rel = Inr (f, loc @ rel)"
    then have "lstat w (root @ rel) = Inr m"
      by (simp add: lstat_def where_is_def node_of_def w at)
    moreover have "stat w (root @ rel) = Inr m" if "\<forall>tg. m \<noteq> Symlink tg"
      using a that by (simp add: stat_def where_is_def node_of_def w at)
    ultimately show ?thesis by blast
  qed
qed

text \<open>The scan returns the filter of the glob, or raises.\<close>

lemma list_files_recursively_frame:
  "list_files_recursively root s = (r, s') \<Longrightarrow>
     fs s' = fs s \<and> calls (trace s') = calls (trace s) @ [Glob root]"
  by (auto simp: list_files_recursively_def Let_def split: sum.splits prod.splits
        dest!: valid_files_loop_frame)

lemma list_files_recursively_returns:
  assumes "list_files_recursively root s = (Inr files, s')"
  shows "files = spec_scan (fs s) root"
proof -
  from assms obtain g s2 where g: "glob (fs s) root = Inr g"
    and l: "valid_files_loop g [] (log_debug (FoundEntries (length g)) (emit (Glob root) s)) = (Inr files, s2)"
    by (auto simp: list_files_recursively_def Let_def split: sum.splits prod.splits)
  from valid_files_loop_returns [OF l]
  have f: "files = filter (\<lambda>x. is_dir (fs s) x = Inr False \<and> is_symlink (fs s) x = Inr False) g"
    by simp
  show ?thesis
  proof (cases "is_dir (fs s) root = Inr True")
    case True
    with g f show ?thesis by (simp add: glob_def spec_scan_def)
  next
    case False
    with g have "g = []" by (auto simp: glob_def split: sum.splits if_splits)
    moreover from False have "glob_paths (fs s) root = []"
      by (auto simp: is_dir_def glob_paths_def split: sum.splits node.splits if_splits)
    ultimately show ?thesis using f by (simp add: spec_scan_def)
  qed
qed

lemma kind_tests:
  assumes "lstat w x = Inr m" and "(\<forall>tg. m \<noteq> Symlink tg) \<longrightarrow> stat w x = Inr m"
    and "\<forall>e. stat w x = Inl e \<longrightarrow> ignore_error e"
  shows "(is_dir w x = Inr False \<and> is_symlink w x = Inr False) \<longleftrightarrow> (\<exists>i. m = File i)"
proof (cases m)
  case (Symlink tg)
  with assms(1) show ?thesis by (simp add: is_symlink_def)
qed (use assms in \<open>auto simp: is_dir_def is_symlink_def\<close>)

subsection \<open>Lookups after an update\<close>

text \<open>
  Replacing or removing the entry at a location changes the answer of one lookup only,
  that of the name of the entry in the directory that holds it.
\<close>

lemma map_of_filter_key:
  "map_of (filter (\<lambda>(k, m). k \<noteq> c) es) c' = (if c' = c then None else map_of es c')"
  by (induction es) auto

lemma map_of_map_key:
  "map_of (map (\<lambda>(k, m). if k = c then (k, f m) else (k, m)) es) c' =
     (if c' = c then map_option f (map_of es c) else map_of es c')"
  by (induction es) auto

lemma map_of_snoc:
  "c \<notin> fst ` set es \<Longrightarrow> map_of (es @ [(c, n)]) c' = (if c' = c then Some n else map_of es c')"
  by (induction es) auto

lemma map_of_replace:
  "c \<in> fst ` set es \<Longrightarrow> map_option (\<lambda>m. n) (map_of es c) = Some n"
  by (induction es) auto

lemma modify_Cons:
  "\<exists>es'. modify (Dir a es) (c0 # cs0) v = Dir a es' \<and>
     (\<forall>c. map_of es' c =
        (if c = c0 then (if cs0 = [] then v else map_option (\<lambda>m. modify m cs0 v) (map_of es c0))
         else map_of es c))"
proof (cases cs0)
  case Nil
  show ?thesis
  proof (cases v)
    case None
    with Nil show ?thesis by (simp add: map_of_filter_key)
  next
    case (Some n)
    show ?thesis
    proof (cases "c0 \<in> fst ` set es")
      case True
      with Nil Some show ?thesis by (simp add: map_of_map_key map_of_replace)
    next
      case False
      with Nil Some show ?thesis by (simp add: map_of_snoc del: map_of_append)
    qed
  qed
next
  case (Cons c1 cs1)
  then show ?thesis by (simp add: map_of_map_key)
qed

lemma modify_Dir: "\<exists>es'. modify (Dir a es) q v = Dir a es'"
proof (cases q)
  case Nil
  then show ?thesis by simp
next
  case (Cons c cs)
  then show ?thesis using modify_Cons [of a es c cs v] by blast
qed

lemma entry_kind_modify:
  "cs \<noteq> [] \<Longrightarrow> entry_kind (map_option (\<lambda>m. modify m cs v) x) = entry_kind x"
proof (cases x)
  case None
  then show ?thesis by simp
next
  case (Some m)
  assume cs: "cs \<noteq> []"
  then obtain c cs' where q: "cs = c # cs'" by (cases cs) auto
  show ?thesis
  proof (cases m)
    case (Dir a es)
    with modify_Dir [of a es cs v] Some show ?thesis by (auto simp: entry_kind_def)
  next
    case (File i)
    with Some q show ?thesis by (cases cs') simp_all
  next
    case (Symlink tg)
    with Some q show ?thesis by (cases cs') simp_all
  qed
qed

lemma look_Nil:
  "look (Dir a es) [] c = (if \<not> searchable a then Inl EACCES else Inr (entry_kind (map_of es c)))"
  by (simp add: look_def)

lemma look_Cons:
  "look (Dir a es) (k # cur) c = (case map_of es k of None \<Rightarrow> Inl ENOENT | Some m \<Rightarrow> look m cur c)"
  by (simp add: look_def split: option.splits)

lemma look_modify:
  "node_at t cur = Some (Dir a es) \<Longrightarrow> \<not> prefix L cur \<Longrightarrow>
     look (modify t L v) cur c =
       (if cur @ [c] = L then (if searchable a then Inr (entry_kind v) else Inl EACCES)
        else look t cur c)"
proof (induction cur arbitrary: t L)
  case Nil
  then have t: "t = Dir a es" by simp
  from Nil.prems(2) obtain c0 cs0 where L: "L = c0 # cs0" by (cases L) auto
  from modify_Cons [of a es c0 cs0 v] obtain es' where
    m: "modify (Dir a es) (c0 # cs0) v = Dir a es'"
    and e: "\<And>c. map_of es' c =
        (if c = c0 then (if cs0 = [] then v else map_option (\<lambda>m. modify m cs0 v) (map_of es c0))
         else map_of es c)"
    by blast
  show ?case
    unfolding t L m look_Nil by (simp add: e entry_kind_modify)
next
  case (Cons k cur')
  from Cons.prems(1) obtain a0 es0 where t: "t = Dir a0 es0"
    by (cases t) auto
  with Cons.prems(1) obtain m where k: "map_of es0 k = Some m" and at: "node_at m cur' = Some (Dir a es)"
    by (auto split: option.splits)
  from Cons.prems(2) obtain c0 cs0 where L: "L = c0 # cs0" by (cases L) auto
  from modify_Cons [of a0 es0 c0 cs0 v] obtain es' where
    md: "modify (Dir a0 es0) (c0 # cs0) v = Dir a0 es'"
    and e: "\<And>c. map_of es' c =
        (if c = c0 then (if cs0 = [] then v else map_option (\<lambda>m. modify m cs0 v) (map_of es0 c0))
         else map_of es0 c)"
    by blast
  show ?case
  proof (cases "k = c0")
    case False
    then show ?thesis unfolding t L md look_Cons by (simp add: e k)
  next
    case True
    with Cons.prems(2) L have ne: "cs0 \<noteq> []" and np: "\<not> prefix cs0 cur'" by auto
    from True k have k0: "map_of es0 c0 = Some m" by simp
    from Cons.IH [OF at np]
    show ?thesis unfolding t L md look_Cons using True ne by (simp add: e k0)
  qed
qed

lemma node_at_modify_self:
  "L \<noteq> [] \<Longrightarrow> node_at t (butlast L) = Some (Dir a es) \<Longrightarrow> node_at (modify t L v) L = v"
proof (induction L arbitrary: t)
  case Nil
  then show ?case by simp
next
  case (Cons c cs)
  show ?case
  proof (cases cs)
    case Nil
    with Cons.prems have t: "t = Dir a es" by simp
    from modify_Cons [of a es c "[]" v] show ?thesis
      unfolding t Nil by (auto split: option.splits)
  next
    case (Cons c1 cs1)
    with Cons.prems obtain a0 es0 m where t: "t = Dir a0 es0" and k: "map_of es0 c = Some m"
      and at: "node_at m (butlast cs) = Some (Dir a es)"
      by (cases t) (auto split: option.splits)
    from Cons have "cs \<noteq> []" by simp
    from Cons.IH [OF this at] have "node_at (modify m cs v) cs = v" .
    with modify_Cons [of a0 es0 c cs v] k \<open>cs \<noteq> []\<close> show ?thesis
      unfolding t by auto
  qed
qed

lemma not_prefix_absent:
  "node_at t L = None \<Longrightarrow> node_at t cur = Some x \<Longrightarrow> \<not> prefix L cur"
  by (auto simp: prefix_def node_at_append)

lemma node_at_below_nondir:
  "\<forall>a es. m \<noteq> Dir a es \<Longrightarrow> node_at m r = Some x \<Longrightarrow> r = []"
  by (cases m; cases r) auto

lemma not_prefix_nondir:
  "node_at t L = Some m \<Longrightarrow> \<forall>a es. m \<noteq> Dir a es \<Longrightarrow> node_at t cur = Some (Dir a' es') \<Longrightarrow>
     \<not> prefix L cur"
proof
  assume a: "node_at t L = Some m" "\<forall>a es. m \<noteq> Dir a es" "node_at t cur = Some (Dir a' es')"
    and "prefix L cur"
  then obtain r where r: "cur = L @ r" by (auto simp: prefix_def)
  with a have n: "node_at m r = Some (Dir a' es')" by (simp add: node_at_append)
  from node_at_below_nondir [OF a(2) n] n a(2) show False by simp
qed

lemma node_at_butlast:
  "node_at t cur = Some (Dir a es) \<Longrightarrow> \<exists>a' es'. node_at t (butlast cur) = Some (Dir a' es')"
proof (cases cur rule: rev_cases)
  case Nil
  assume "node_at t cur = Some (Dir a es)"
  with Nil show ?thesis by simp
next
  case (snoc r c)
  assume "node_at t cur = Some (Dir a es)"
  with snoc obtain n where n: "node_at t r = Some n" "node_at n [c] = Some (Dir a es)"
    by (auto simp: node_at_append split: option.splits)
  then show ?thesis using snoc by (cases n) auto
qed

lemma node_at_root:
  "node_at t cur = Some (Dir a es) \<Longrightarrow> \<exists>a' es'. node_at t [] = Some (Dir a' es')"
  by (cases t; cases cur) auto

lemma look_Inr:
  "look t cur c = Inr r \<Longrightarrow> \<exists>a es. node_at t cur = Some (Dir a es) \<and> searchable a \<and> r = entry_kind (map_of es c)"
  by (auto simp: look_def split: option.splits node.splits if_splits)

text \<open>
  A resolution that succeeds does not depend on whether a missing last entry may be
  created. After the entry that a path leads to is removed, the path leads nowhere; after
  a file is made where a path was found missing, the path leads to the file.
\<close>

lemma resolve_creat:
  "resolve fo False f t cur q = Inr r \<Longrightarrow> resolve fo True f t cur q = Inr r"
  by (induction fo False f t cur q rule: resolve.induct)
     (auto split: sum.splits looked.splits nat.splits if_splits)

lemma resolve_removed:
  assumes "resolve False False f t cur q = Inr (f', L)" and "node_at t L = Some m"
    and "\<forall>a es. m \<noteq> Dir a es" and "q \<noteq> []"
  shows "resolve fo False f (modify t L None) cur q = Inl ENOENT"
  using assms
proof (induction False False f t cur q rule: resolve.induct)
  case (1 fuel t cur)
  then show ?case by simp
next
  case (2 fuel t cur c cs)
  from "2.prems"(1) obtain r where r: "look t cur c = Inr r"
    by (cases "look t cur c") auto
  from look_Inr [OF r] obtain a es where at: "node_at t cur = Some (Dir a es)" and sa: "searchable a"
    by blast
  from not_prefix_nondir [OF "2.prems"(2,3) at] have np: "\<not> prefix L cur" .
  have new: "look (modify t L None) cur c = (if cur @ [c] = L then Inr NoEntry else Inr r)"
    using look_modify [OF at np, of None c] sa r by (simp add: entry_kind_def)
  show ?case
  proof (cases "c = ''.''")
    case True
    with "2.prems"(1) r have old: "resolve False False fuel t cur cs = Inr (f', L)" by simp
    have "cs \<noteq> []"
    proof
      assume "cs = []"
      with old have "L = cur" by simp
      with at "2.prems"(2,3) show False by auto
    qed
    from "2.hyps"(1) [OF r True old "2.prems"(2,3) this] new True show ?thesis
      by simp
  next
    case d1: False
    show ?thesis
    proof (cases "c = ''..''")
      case True
      with "2.prems"(1) r d1 have old: "resolve False False fuel t (butlast cur) cs = Inr (f', L)" by simp
      have "cs \<noteq> []"
      proof
        assume "cs = []"
        with old have "L = butlast cur" by simp
        with node_at_butlast [OF at] "2.prems"(2,3) show False by auto
      qed
      from "2.hyps"(2) [OF r d1 True old "2.prems"(2,3) this] new d1 True show ?thesis
        by simp
    next
      case dd: False
      show ?thesis
      proof (cases "cur @ [c] = L")
        case True
        with new d1 dd show ?thesis by simp
      next
        case nl: False
        with new have new': "look (modify t L None) cur c = Inr r" by simp
        show ?thesis
        proof (cases r)
          case NoEntry
          with "2.prems"(1) r d1 dd show ?thesis by simp
        next
          case Other
          with "2.prems"(1) r d1 dd have old: "resolve False False fuel t (cur @ [c]) cs = Inr (f', L)" by simp
          have "cs \<noteq> []"
          proof
            assume "cs = []"
            with old nl show False by simp
          qed
          from "2.hyps"(5) [OF r d1 dd Other old "2.prems"(2,3) this] new' d1 dd Other show ?thesis
            by simp
        next
          case (LinkTo tg)
          have cs: "cs \<noteq> []"
          proof
            assume "cs = []"
            with "2.prems"(1) r d1 dd LinkTo nl show False by simp
          qed
          show ?thesis
          proof (cases "tg = []")
            case True
            with "2.prems"(1) r d1 dd LinkTo cs show ?thesis by simp
          next
            case tn: False
            show ?thesis
            proof (cases fuel)
              case 0
              with "2.prems"(1) r d1 dd LinkTo cs tn show ?thesis by simp
            next
              case (Suc g)
              have c2: "\<not> (cs = [] \<and> \<not> False)" using cs by simp
              show ?thesis
              proof (cases "is_absolute tg")
                case True
                with "2.prems"(1) r d1 dd LinkTo cs tn Suc
                have old: "resolve False False g t [] (tl tg @ cs) = Inr (f', L)" by simp
                from cs have ne: "tl tg @ cs \<noteq> []" by simp
                from "2.hyps"(3) [OF r d1 dd LinkTo c2 tn Suc True old "2.prems"(2,3) ne]
                  new' d1 dd LinkTo cs tn Suc True
                show ?thesis by simp
              next
                case False
                with "2.prems"(1) r d1 dd LinkTo cs tn Suc
                have old: "resolve False False g t cur (tg @ cs) = Inr (f', L)" by simp
                from cs have ne: "tg @ cs \<noteq> []" by simp
                from "2.hyps"(4) [OF r d1 dd LinkTo c2 tn Suc False old "2.prems"(2,3) ne]
                  new' d1 dd LinkTo cs tn Suc False
                show ?thesis by simp
              qed
            qed
          qed
        qed
      qed
    qed
  qed
qed

lemma resolve_created:
  assumes "resolve fo True f t cur q = Inr (f', L)" and "node_at t L = None"
    and "\<forall>tg. n \<noteq> Symlink tg"
  shows "resolve fo False f (modify t L (Some n)) cur q = Inr (f', L)"
  using assms
proof (induction fo True f t cur q rule: resolve.induct)
  case (1 fo fuel t cur)
  then show ?case by simp
next
  case (2 fo fuel t cur c cs)
  from "2.prems"(1) obtain r where r: "look t cur c = Inr r"
    by (cases "look t cur c") auto
  from look_Inr [OF r] obtain a es where at: "node_at t cur = Some (Dir a es)" and sa: "searchable a"
    and rk: "r = entry_kind (map_of es c)"
    by blast
  from not_prefix_absent [OF "2.prems"(2) at] have np: "\<not> prefix L cur" .
  from "2.prems"(3) have ek: "entry_kind (Some n) = Other"
    by (cases n) (simp_all add: entry_kind_def)
  have new: "look (modify t L (Some n)) cur c = (if cur @ [c] = L then Inr Other else Inr r)"
    using look_modify [OF at np, of "Some n" c] sa r ek by simp
  show ?case
  proof (cases "c = ''.''")
    case True
    with "2.prems"(1) r have old: "resolve fo True fuel t cur cs = Inr (f', L)" by simp
    from "2.hyps"(1) [OF r True old "2.prems"(2,3)] new True show ?thesis
      by simp
  next
    case d1: False
    show ?thesis
    proof (cases "c = ''..''")
      case True
      with "2.prems"(1) r d1 have old: "resolve fo True fuel t (butlast cur) cs = Inr (f', L)" by simp
      from "2.hyps"(2) [OF r d1 True old "2.prems"(2,3)] new d1 True show ?thesis
        by simp
    next
      case dd: False
      show ?thesis
      proof (cases "cur @ [c] = L")
        case True
        with "2.prems"(2) at have "map_of es c = None"
          by (auto simp: node_at_append split: option.splits)
        with rk have "r = NoEntry" by (simp add: entry_kind_def)
        with "2.prems"(1) r d1 dd have "cs = []" "f' = fuel"
          by (auto split: if_splits)
        with new d1 dd True show ?thesis by simp
      next
        case nl: False
        with new have new': "look (modify t L (Some n)) cur c = Inr r" by simp
        show ?thesis
        proof (cases r)
          case NoEntry
          with "2.prems"(1) r d1 dd nl show ?thesis by (auto split: if_splits)
        next
          case Other
          with "2.prems"(1) r d1 dd have old: "resolve fo True fuel t (cur @ [c]) cs = Inr (f', L)" by simp
          from "2.hyps"(5) [OF r d1 dd Other old "2.prems"(2,3)] new' d1 dd Other show ?thesis
            by simp
        next
          case (LinkTo tg)
          have c2: "\<not> (cs = [] \<and> \<not> fo)"
          proof
            assume "cs = [] \<and> \<not> fo"
            with "2.prems"(1) r d1 dd LinkTo nl show False by simp
          qed
          show ?thesis
          proof (cases "tg = []")
            case True
            with "2.prems"(1) r d1 dd LinkTo c2 show ?thesis by simp
          next
            case tn: False
            show ?thesis
            proof (cases fuel)
              case 0
              with "2.prems"(1) r d1 dd LinkTo c2 tn show ?thesis by simp
            next
              case (Suc g)
              show ?thesis
              proof (cases "is_absolute tg")
                case True
                with "2.prems"(1) r d1 dd LinkTo c2 tn Suc
                have old: "resolve fo True g t [] (tl tg @ cs) = Inr (f', L)" by auto
                from "2.hyps"(3) [OF r d1 dd LinkTo c2 tn Suc True old "2.prems"(2,3)]
                  new' d1 dd LinkTo c2 tn Suc True
                show ?thesis by auto
              next
                case False
                with "2.prems"(1) r d1 dd LinkTo c2 tn Suc
                have old: "resolve fo True g t cur (tg @ cs) = Inr (f', L)" by auto
                from "2.hyps"(4) [OF r d1 dd LinkTo c2 tn Suc False old "2.prems"(2,3)]
                  new' d1 dd LinkTo c2 tn Suc False
                show ?thesis by auto
              qed
            qed
          qed
        qed
      qed
    qed
  qed
qed

text \<open>The same at the level of paths.\<close>

lemma locate_tree_update [simp]: "locate (w\<lparr>tree := t\<rparr>) p = locate w p"
  by (cases p) (simp_all add: locate_def)

lemma locate_set_entry [simp]: "locate (set_entry loc v w) p = locate w p"
  by (simp add: set_entry_def)

lemma locate_create_file [simp]: "locate (create_file loc b w) p = locate w p"
  by (cases p) (simp_all add: locate_def create_file_def)

lemma locate_content_update [simp]: "locate (w\<lparr>content := c\<rparr>) p = locate w p"
  by (cases p) (simp_all add: locate_def)

lemma where_is_creat:
  "where_is w fo False p = Inr loc \<Longrightarrow> where_is w fo True p = Inr loc"
  by (auto simp: where_is_def split: sum.splits dest!: resolve_creat)

lemma where_is_removed:
  assumes "where_is w False False p = Inr loc" and "node_at (tree w) loc = Some m"
    and "\<forall>a es. m \<noteq> Dir a es" and "can_write (tree w) loc"
  shows "where_is (set_entry loc None w) fo False p = Inl ENOENT"
proof -
  from assms(1) obtain f' where r: "resolve False False 40 (tree w) [] (locate w p) = Inr (f', loc)"
    by (auto simp: where_is_def split: sum.splits)
  from assms(4) have "loc \<noteq> []" by (simp add: can_write_def)
  with r have ne: "locate w p \<noteq> []" by auto
  from resolve_removed [OF r assms(2,3) ne, of fo] show ?thesis
    by (simp add: where_is_def set_entry_def)
qed

lemma where_is_created:
  assumes "where_is w fo True p = Inr loc" and "node_at (tree w) loc = None"
  shows "where_is (create_file loc b w) fo False p = Inr loc"
proof -
  from assms(1) obtain f' where r: "resolve fo True 40 (tree w) [] (locate w p) = Inr (f', loc)"
    by (auto simp: where_is_def split: sum.splits)
  have "\<forall>tg. File (next_ino w) \<noteq> Symlink tg" by simp
  from resolve_created [OF r assms(2) this] have
    "resolve fo False 40 (modify (tree w) loc (Some (File (next_ino w)))) [] (locate w p) = Inr (f', loc)" .
  moreover have "tree (create_file loc b w) = modify (tree w) loc (Some (File (next_ino w)))"
    by (simp add: create_file_def)
  ultimately show ?thesis by (simp add: where_is_def)
qed

lemma where_is_linked:
  assumes "where_is w fo True p = Inr loc" and "node_at (tree w) loc = None"
  shows "where_is (set_entry loc (Some (File i)) w) fo False p = Inr loc"
proof -
  from assms(1) obtain f' where r: "resolve fo True 40 (tree w) [] (locate w p) = Inr (f', loc)"
    by (auto simp: where_is_def split: sum.splits)
  have "\<forall>tg. File i \<noteq> Symlink tg" by simp
  from resolve_created [OF r assms(2) this] show ?thesis
    by (simp add: where_is_def set_entry_def)
qed

lemma node_at_linked:
  assumes "can_write (tree w) loc"
  shows "node_at (tree (set_entry loc (Some n) w)) loc = Some n"
proof -
  from assms obtain a es where "loc \<noteq> []" "node_at (tree w) (butlast loc) = Some (Dir a es)"
    by (auto simp: can_write_def split: option.splits node.splits)
  from node_at_modify_self [OF this] show ?thesis by (simp add: set_entry_def)
qed

lemma node_at_created:
  assumes "can_write (tree w) loc"
  shows "node_at (tree (create_file loc b w)) loc = Some (File (next_ino w))"
proof -
  from assms obtain a es where "loc \<noteq> []" "node_at (tree w) (butlast loc) = Some (Dir a es)"
    by (auto simp: can_write_def split: option.splits node.splits)
  from node_at_modify_self [OF this] show ?thesis by (simp add: create_file_def)
qed

lemma node_at_removed:
  assumes "can_write (tree w) loc"
  shows "node_at (tree (set_entry loc None w)) loc = None"
proof -
  from assms obtain a es where "loc \<noteq> []" "node_at (tree w) (butlast loc) = Some (Dir a es)"
    by (auto simp: can_write_def split: option.splits node.splits)
  from node_at_modify_self [OF this] show ?thesis by (simp add: set_entry_def)
qed

subsection \<open>The importer\<close>

text \<open>
  A failed \<^verbatim>\<open>unlink\<close> or \<^verbatim>\<open>hardlink_to\<close> changes nothing but the trace; an
  \<^verbatim>\<open>unlink\<close> that returns leaves no entry at the path; a hard link onto an entry
  that is there fails with \<open>EEXIST\<close> when the source is found; a copy to a path where
  nothing is makes a new inode with the bytes of the source.
\<close>

lemma unlink_failure:
  "unlink p s = (Inl e, s1) \<Longrightarrow> s1 = s\<lparr>trace := trace s @ [Unlink p]\<rparr>"
  by (auto simp: unlink_def Let_def emit_def split: sum.splits option.splits node.splits if_splits)

lemma unlink_effect:
  assumes "unlink p s = (Inr u, s1)"
  shows "trace s1 = trace s @ [Unlink p] \<and> lstat (fs s1) p = Inl ENOENT
       \<and> stat (fs s1) p = Inl ENOENT \<and> content (fs s1) = content (fs s)"
proof -
  from assms obtain loc m where loc: "where_is (fs s) False False p = Inr loc"
    and m: "node_at (tree (fs s)) loc = Some m" "\<forall>a es. m \<noteq> Dir a es"
    and cw: "can_write (tree (fs s)) loc"
    and s1: "s1 = (emit (Unlink p) s)\<lparr>fs := set_entry loc None (fs s)\<rparr>"
    by (auto simp: unlink_def Let_def split: sum.splits option.splits node.splits if_splits)
  from where_is_removed [OF loc m cw] show ?thesis
    by (simp add: s1 lstat_def stat_def node_of_def set_entry_def)
qed

lemma unlink_returns:
  assumes "where_is (fs s) False False p = Inr loc" and "node_at (tree (fs s)) loc = Some m"
    and "\<forall>a es. m \<noteq> Dir a es" and "can_write (tree (fs s)) loc"
  shows "unlink p s = (Inr (), s\<lparr>fs := set_entry loc None (fs s), trace := trace s @ [Unlink p]\<rparr>)"
  using assms by (cases m) (simp_all add: unlink_def Let_def emit_def)

lemma remove_existing_absent:
  "exists (fs s) target = Inr False \<Longrightarrow> remove_existing target s = (Inr (), s)"
  by (simp add: remove_existing_def)

lemma exists_absent: "stat w p = Inl ENOENT \<Longrightarrow> exists w p = Inr False"
  by (simp add: exists_def ignore_error_def)

lemma not_isdir_absent: "exists w p = Inr False \<Longrightarrow> \<not> os_path_isdir w p"
  by (auto simp: exists_def os_path_isdir_def split: sum.splits if_splits)

lemma hardlink_to_failure:
  "hardlink_to target source s = (Inl e, s2) \<Longrightarrow>
     s2 = s\<lparr>trace := trace s @ [HardlinkTo target source]\<rparr> \<and> is_OSError e"
  by (auto simp: hardlink_to_def Let_def emit_def is_OSError_def
        split: sum.splits option.splits node.splits if_splits)

lemma hardlink_to_exists:
  assumes "lstat (fs s) source = Inr n" and "lstat (fs s) target = Inr m"
  shows "hardlink_to target source s =
           (Inl (OSError EEXIST), s\<lparr>trace := trace s @ [HardlinkTo target source]\<rparr>)"
proof -
  from assms(2) obtain loc where "where_is (fs s) False False target = Inr loc"
    and m: "node_at (tree (fs s)) loc = Some m"
    by (auto simp: lstat_def node_of_def split: sum.splits option.splits)
  from where_is_creat [OF this(1)] m assms(1) show ?thesis
    by (simp add: hardlink_to_def Let_def emit_def)
qed

text \<open>A hard link that is made: the destination is the inode of the source.\<close>

lemma hardlink_to_links:
  assumes "lstat (fs s) source = Inr (File i)" and "where_is (fs s) False True target = Inr loc"
    and "node_at (tree (fs s)) loc = None" and "link_veto (fs s) source target = None"
    and "can_write (tree (fs s)) loc"
  shows "hardlink_to target source s =
           (Inr (), s\<lparr>fs := set_entry loc (Some (File i)) (fs s),
                      trace := trace s @ [HardlinkTo target source]\<rparr>)
       \<and> lstat (set_entry loc (Some (File i)) (fs s)) target = Inr (File i)
       \<and> content (set_entry loc (Some (File i)) (fs s)) = content (fs s)"
proof -
  have "lstat (set_entry loc (Some (File i)) (fs s)) target = Inr (File i)"
    using where_is_linked [OF assms(2,3)] node_at_linked [OF assms(5)]
    by (simp add: lstat_def node_of_def)
  moreover have "hardlink_to target source s =
           (Inr (), s\<lparr>fs := set_entry loc (Some (File i)) (fs s),
                      trace := trace s @ [HardlinkTo target source]\<rparr>)"
    using assms by (simp add: hardlink_to_def Let_def emit_def)
  ultimately show ?thesis by (simp add: set_entry_def)
qed

lemma shutil_copy_creates:
  assumes "stat (fs s) src = Inr (File i)" and "\<not> os_path_isdir (fs s) dst"
    and "where_is (fs s) True True dst = Inr loc" and "node_at (tree (fs s)) loc = None"
    and "can_write (tree (fs s)) loc"
  shows "shutil_copy src dst s =
           (Inr dst, s\<lparr>fs := create_file loc (content (fs s) i) (fs s),
                       trace := trace s @ [ShutilCopy src dst]\<rparr>)
       \<and> stat (create_file loc (content (fs s) i) (fs s)) dst = Inr (File (next_ino (fs s)))
       \<and> content (create_file loc (content (fs s) i) (fs s)) (next_ino (fs s)) = content (fs s) i"
proof -
  have "stat (create_file loc (content (fs s) i) (fs s)) dst = Inr (File (next_ino (fs s)))"
    using where_is_created [OF assms(3,4)] node_at_created [OF assms(5)]
    by (simp add: stat_def node_of_def)
  moreover have "content (create_file loc (content (fs s) i) (fs s)) (next_ino (fs s)) = content (fs s) i"
    by (simp add: create_file_def)
  moreover have "shutil_copy src dst s =
           (Inr dst, s\<lparr>fs := create_file loc (content (fs s) i) (fs s),
                       trace := trace s @ [ShutilCopy src dst]\<rparr>)"
    using assms by (simp add: shutil_copy_def Let_def emit_def)
  ultimately show ?thesis by simp
qed

lemma shutil_copy_no_source:
  "stat (fs s) src = Inl x \<Longrightarrow>
     shutil_copy src dst s = (Inl (OSError x), s\<lparr>trace := trace s @ [ShutilCopy src dst]\<rparr>)"
  by (simp add: shutil_copy_def Let_def emit_def)

subsection \<open>Archive expansion\<close>

lemma extract_archives_append:
  "extract_archives env (xs @ ys) s =
     (case extract_archives env xs s of
        (Inl e, s1) \<Rightarrow> (Inl e, s1)
      | (Inr _, s1) \<Rightarrow> extract_archives env ys s1)"
proof (induction xs arbitrary: s)
  case Nil
  show ?case by simp
next
  case (Cons x xs)
  show ?case
    by (simp add: Cons.IH Let_def split: sum.splits prod.splits option.splits)
qed

lemma extract_archives_calls:
  "extract_archives env files s = (Inr (), s') \<Longrightarrow>
     calls (trace s') = calls (trace s)
        @ map (\<lambda>f. ExtractArchive (str f) (str (parent f))) (filter (spec_is_archive env) files)"
proof (induction files arbitrary: s)
  case Nil
  then show ?case by simp
next
  case (Cons f rest)
  from Cons.prems show ?case
    by (auto simp: Let_def spec_is_archive_def split: sum.splits prod.splits option.splits if_splits
          dest!: Cons.IH)
qed

lemma extract_archives_single:
  "stat (fs s) f = Inr n \<Longrightarrow>
     calls (trace (snd (extract_archives env [f] s))) =
       calls (trace s) @ (if spec_is_archive env f then [ExtractArchive (str f) (str (parent f))] else [])"
  by (simp add: spec_is_archive_def Let_def split: prod.splits option.splits)

subsection \<open>Classification\<close>

lemma classify_result:
  "classify env files v sub s =
     ((v @ filter (spec_is_video env) files, sub @ filter (spec_is_subtitle env) files),
      s\<lparr>trace := trace s @ concat (map (spec_classify_log env) files)\<rparr>)"
proof (induction files arbitrary: v sub s)
  case Nil
  show ?case by simp
next
  case (Cons f rest)
  show ?case
    by (cases "fst (guess_type env (str f))")
       (simp_all add: Cons.IH spec_is_video_def spec_is_subtitle_def spec_classify_log_def
          log_debug_def emit_def)
qed

lemma calls_classify_log [simp]: "calls (concat (map (spec_classify_log env) files)) = []"
  by (induction files) (auto simp: spec_classify_log_def split: option.splits)

text \<open>
  For a type whose major category is one of the registered top-level types, beginning
  with \<open>text\<close> (or \<open>video\<close>) is having that major category.
\<close>

lemma major_category_prefix:
  "major_category t = c \<Longrightarrow> prefix c t"
  by (metis major_category_def prefixI takeWhile_dropWhile_id)

lemma top_level_text_video:
  assumes "major_category t \<in> set top_level_types"
  shows "(prefix ''text'' t \<longleftrightarrow> major_category t = ''text'')
       \<and> (prefix ''video'' t \<longleftrightarrow> major_category t = ''video'')"
proof -
  have a: "major_category t = ''text''" if "prefix ''text'' t"
  proof -
    from that obtain r where "t = ''text'' @ r" by (auto simp: prefix_def)
    with assms show ?thesis by (auto simp: major_category_def top_level_types_def)
  qed
  have b: "major_category t = ''video''" if "prefix ''video'' t"
  proof -
    from that obtain r where "t = ''video'' @ r" by (auto simp: prefix_def)
    with assms show ?thesis by (auto simp: major_category_def top_level_types_def)
  qed
  from a b major_category_prefix show ?thesis by blast
qed

section \<open>The claims\<close>

subsection \<open>C1: the scan of a missing or unreadable root\<close>

text \<open>
  Claim C1 says that for every root path that does not exist or is not readable, the scan
  fails with a not-found or not-accessible error that propagates to the caller, rather
  than returning a list. On the code the scan of a missing root raises nothing, and
  neither does the scan of a directory that cannot be listed: \<^verbatim>\<open>glob\<close> yields no
  entry for a path that is not a directory and swallows the error of listing a
  directory, the loop body never runs, and the empty list is returned.
\<close>

theorem scan_of_missing_or_unlistable_root_does_not_fail:
  "stat (fs example_state) [''/'', ''downloads'', ''gone''] = Inl ENOENT
   \<and> list_files_recursively [''/'', ''downloads'', ''gone''] example_state =
       (Inr [], example_state\<lparr>trace :=
          [Glob [''/'', ''downloads'', ''gone''], Log DEBUG (FoundEntries 0), Log DEBUG (ReturningFiles 0)]\<rparr>)
   \<and> stat (fs example_state) [''/'', ''downloads'', ''show'', ''locked''] =
       Inr (Dir (DirAttr False True True 4096) [(''hid.mkv'', File 8)])
   \<and> list_files_recursively [''/'', ''downloads'', ''show'', ''locked''] example_state =
       (Inr [], example_state\<lparr>trace :=
          [Glob [''/'', ''downloads'', ''show'', ''locked''], Log DEBUG (FoundEntries 0),
           Log DEBUG (ReturningFiles 0)]\<rparr>)"
  by (simp add: run_defs path_defs fs_defs state_defs example_defs)

text \<open>
  Claim C1, as amended: for a root path that does not exist (its \<^verbatim>\<open>stat\<close> fails with
  one of the errors that \<^verbatim>\<open>pathlib\<close> ignores: \<open>ENOENT\<close>, \<open>ENOTDIR\<close>, \<open>EBADF\<close>,
  \<open>ELOOP\<close>) and for a root that is a directory that cannot be listed,
  \<^verbatim>\<open>list_files_recursively\<close> raises nothing and returns the empty list, after its two
  debug records with the count zero, and leaves the filesystem as it was. For a root whose
  \<^verbatim>\<open>stat\<close> fails with any other error (\<open>EACCES\<close>, when a directory above the root
  cannot be searched), the \<^verbatim>\<open>glob\<close> raises that \<^verbatim>\<open>OSError\<close> (a
  \<^verbatim>\<open>PermissionError\<close>); nothing catches it, and it leaves the function before any
  log record.
\<close>

theorem scan_of_missing_or_unreadable_root:
  "(stat (fs s) root = Inl e \<and> ignore_error e \<longrightarrow>
      list_files_recursively root s =
        (Inr [], s\<lparr>trace := trace s @
            [Glob root, Log DEBUG (FoundEntries 0), Log DEBUG (ReturningFiles 0)]\<rparr>))
   \<and> (stat (fs s) root = Inr (Dir a es) \<and> \<not> readable a \<longrightarrow>
      list_files_recursively root s =
        (Inr [], s\<lparr>trace := trace s @
            [Glob root, Log DEBUG (FoundEntries 0), Log DEBUG (ReturningFiles 0)]\<rparr>))
   \<and> (stat (fs s) root = Inl e \<and> \<not> ignore_error e \<longrightarrow>
      list_files_recursively root s = (Inl (OSError e), s\<lparr>trace := trace s @ [Glob root]\<rparr>))"
proof (intro conjI impI)
  assume "stat (fs s) root = Inl e \<and> ignore_error e"
  then show "list_files_recursively root s =
        (Inr [], s\<lparr>trace := trace s @
            [Glob root, Log DEBUG (FoundEntries 0), Log DEBUG (ReturningFiles 0)]\<rparr>)"
    by (simp add: list_files_recursively_def glob_def is_dir_def log_debug_def emit_def)
next
  assume a: "stat (fs s) root = Inr (Dir a es) \<and> \<not> readable a"
  then have "glob_paths (fs s) root = []" using glob_paths_unlistable by blast
  with a show "list_files_recursively root s =
        (Inr [], s\<lparr>trace := trace s @
            [Glob root, Log DEBUG (FoundEntries 0), Log DEBUG (ReturningFiles 0)]\<rparr>)"
    by (simp add: list_files_recursively_def glob_def is_dir_def log_debug_def emit_def)
next
  assume "stat (fs s) root = Inl e \<and> \<not> ignore_error e"
  then show "list_files_recursively root s = (Inl (OSError e), s\<lparr>trace := trace s @ [Glob root]\<rparr>)"
    by (simp add: list_files_recursively_def glob_def is_dir_def emit_def)
qed

text \<open>The theorem of C1 at a missing root, at a directory that cannot be listed, and at
  a root below a directory that cannot be searched.\<close>

theorem scan_of_missing_or_unreadable_root_witness:
  "stat (fs example_state) [''/'', ''downloads'', ''gone''] = Inl ENOENT
   \<and> ignore_error ENOENT
   \<and> list_files_recursively [''/'', ''downloads'', ''gone''] example_state =
       (Inr [], example_state\<lparr>trace :=
          [Glob [''/'', ''downloads'', ''gone''], Log DEBUG (FoundEntries 0), Log DEBUG (ReturningFiles 0)]\<rparr>)
   \<and> stat (fs example_state) [''/'', ''downloads'', ''show'', ''locked''] =
       Inr (Dir (DirAttr False True True 4096) [(''hid.mkv'', File 8)])
   \<and> \<not> readable (DirAttr False True True 4096)
   \<and> list_files_recursively [''/'', ''downloads'', ''show'', ''locked''] example_state =
       (Inr [], example_state\<lparr>trace :=
          [Glob [''/'', ''downloads'', ''show'', ''locked''], Log DEBUG (FoundEntries 0),
           Log DEBUG (ReturningFiles 0)]\<rparr>)
   \<and> stat (fs example_state) [''/'', ''downloads'', ''private'', ''x''] = Inl EACCES
   \<and> \<not> ignore_error EACCES
   \<and> list_files_recursively [''/'', ''downloads'', ''private'', ''x''] example_state =
       (Inl (OSError EACCES), example_state\<lparr>trace := [Glob [''/'', ''downloads'', ''private'', ''x'']]\<rparr>)"
proof -
  have h1: "stat (fs example_state) [''/'', ''downloads'', ''gone''] = Inl ENOENT"
    by (simp add: path_defs fs_defs example_defs)
  have h2: "stat (fs example_state) [''/'', ''downloads'', ''show'', ''locked''] =
       Inr (Dir (DirAttr False True True 4096) [(''hid.mkv'', File 8)])"
    by (simp add: path_defs fs_defs example_defs)
  have h3: "stat (fs example_state) [''/'', ''downloads'', ''private'', ''x''] = Inl EACCES"
    by (simp add: path_defs fs_defs example_defs)
  have i: "ignore_error ENOENT" "\<not> ignore_error EACCES" by (simp_all add: ignore_error_def)
  have t: "trace example_state = []" by (simp add: example_defs)
  show ?thesis
    using h1 h2 h3 i
      scan_of_missing_or_unreadable_root [of example_state "[''/'', ''downloads'', ''gone'']" ENOENT]
      scan_of_missing_or_unreadable_root [of example_state "[''/'', ''downloads'', ''show'', ''locked'']" ENOENT
         "DirAttr False True True 4096" "[(''hid.mkv'', File 8)]"]
      scan_of_missing_or_unreadable_root [of example_state "[''/'', ''downloads'', ''private'', ''x'']" EACCES]
    by (simp add: t)
qed

subsection \<open>C2: which files are extracted\<close>

text \<open>
  Claim C2 says that a file is extracted if and only if its sniffed type is one of the
  archive types, and in particular that a file whose sniffed type is the compressed-zip
  variant (\<^verbatim>\<open>application/x-zip-compressed\<close> or \<^verbatim>\<open>application/x-compressed\<close>) is
  extracted. The code misses the second part: neither of the two types is in its set,
  which holds their concatenation instead, so on a host that gives \<^verbatim>\<open>.zip\<close> the
  type \<^verbatim>\<open>application/x-zip-compressed\<close> the archive is logged and left alone.
\<close>

theorem compressed_zip_is_not_extracted:
  "fst (guess_type example_env_registry ''/downloads/show/pack.zip'') = Some ''application/x-zip-compressed''
   \<and> \<not> in_archive_types (Some ''application/x-zip-compressed'')
   \<and> \<not> in_archive_types (Some ''application/x-compressed'')
   \<and> in_archive_types (Some ''application/x-zip-compressedapplication/x-compressed'')
   \<and> extract_archives example_env_registry [[''/'', ''downloads'', ''show'', ''pack.zip'']] example_state =
       (Inr (), example_state\<lparr>trace :=
          [Log DEBUG (FileInfo [''/'', ''downloads'', ''show'', ''pack.zip''] 0
             (Some ''application/x-zip-compressed'', None))]\<rparr>)"
  by (simp add: run_defs path_defs fs_defs state_defs example_defs)

subsection \<open>C3: the importer\<close>

text \<open>
  Claim C3, in three parts.
  \<^item> \<^verbatim>\<open>import_file\<close> first deletes what is at the destination: when the destination
    exists, the first call is its \<^verbatim>\<open>unlink\<close>. When the \<^verbatim>\<open>unlink\<close> returns, the
    destination path holds no entry any more (its \<^verbatim>\<open>lstat\<close> fails with \<open>ENOENT\<close>) and
    the import goes on as the import into a filesystem without the destination; when it
    raises (the destination is a directory, or its directory is not writable), the
    filesystem is unchanged and the exception leaves \<^verbatim>\<open>import_file\<close>.
  \<^item> When the destination does not exist for \<^verbatim>\<open>exists\<close> and the hard link finds an
    entry there (and has found the source), the link fails with
    \<^verbatim>\<open>FileExistsError\<close>, the error is logged and \<^verbatim>\<open>import_file\<close> returns: no
    copy is made and the filesystem is as the link attempt found it.
  \<^item> When the hard link fails with any other error, the filesystem is unchanged, the
    error is logged and \<^verbatim>\<open>shutil.copy\<close> from source to destination runs; its outcome
    is the outcome of the import. When the source is a regular file and the destination
    can be created, the import returns and the destination is a new inode that holds the
    bytes of the source; when the source cannot be read, the \<^verbatim>\<open>OSError\<close> of the
    copy leaves \<^verbatim>\<open>import_file\<close>.
\<close>

theorem import_file_first_deletes_then_links:
  "(exists (fs s) target = Inr True \<and> remove_existing target s = (r1, s1) \<longrightarrow>
      trace s1 = trace s @ [Unlink target]
      \<and> (case r1 of
            Inl e1 \<Rightarrow> fs s1 = fs s \<and> import_file target source s = (Inl e1, s1)
          | Inr u \<Rightarrow> lstat (fs s1) target = Inl ENOENT \<and> exists (fs s1) target = Inr False
                    \<and> import_file target source s = import_file target source s1))
   \<and> (exists (fs s) target = Inr False \<and> lstat (fs s) source = Inr n \<and> lstat (fs s) target = Inr m \<longrightarrow>
        hardlink_to target source s =
          (Inl (OSError EEXIST), s\<lparr>trace := trace s @ [HardlinkTo target source]\<rparr>)
      \<and> import_file target source s =
          (Inr (), s\<lparr>trace := trace s @ [HardlinkTo target source, Log ERROR (AlreadyExists target)]\<rparr>))
   \<and> (exists (fs s) target = Inr False \<and> hardlink_to target source s = (Inl e, s2)
        \<and> e \<noteq> OSError EEXIST \<longrightarrow>
        fs s2 = fs s
      \<and> import_file target source s =
          (case shutil_copy source target
                  (s\<lparr>trace := trace s @ [HardlinkTo target source,
                                         Log ERROR (FailedToHardlink source target e)]\<rparr>) of
             (Inl e', s3) \<Rightarrow> (Inl e', s3)
           | (Inr d, s3) \<Rightarrow> (Inr (), s3))
      \<and> (stat (fs s) source = Inr (File i) \<and> where_is (fs s) True True target = Inr loc
           \<and> node_at (tree (fs s)) loc = None \<and> can_write (tree (fs s)) loc \<longrightarrow>
           import_file target source s =
             (Inr (), s\<lparr>fs := create_file loc (content (fs s) i) (fs s),
                        trace := trace s @ [HardlinkTo target source,
                                            Log ERROR (FailedToHardlink source target e),
                                            ShutilCopy source target]\<rparr>)
           \<and> stat (create_file loc (content (fs s) i) (fs s)) target = Inr (File (next_ino (fs s)))
           \<and> content (create_file loc (content (fs s) i) (fs s)) (next_ino (fs s)) = content (fs s) i)
      \<and> (stat (fs s) source = Inl x \<longrightarrow>
           import_file target source s =
             (Inl (OSError x), s\<lparr>trace := trace s @ [HardlinkTo target source,
                                                    Log ERROR (FailedToHardlink source target e),
                                                    ShutilCopy source target]\<rparr>)))"
proof (intro conjI impI)
  assume a: "exists (fs s) target = Inr True \<and> remove_existing target s = (r1, s1)"
  then have un: "unlink target s = (r1, s1)" by (auto simp: remove_existing_def)
  show "trace s1 = trace s @ [Unlink target]"
  proof (cases r1)
    case (Inl e1)
    with unlink_failure un show ?thesis by fastforce
  next
    case (Inr u)
    with unlink_effect un show ?thesis by blast
  qed
  show "case r1 of
            Inl e1 \<Rightarrow> fs s1 = fs s \<and> import_file target source s = (Inl e1, s1)
          | Inr u \<Rightarrow> lstat (fs s1) target = Inl ENOENT \<and> exists (fs s1) target = Inr False
                    \<and> import_file target source s = import_file target source s1"
  proof (cases r1)
    case (Inl e1)
    with un have "s1 = s\<lparr>trace := trace s @ [Unlink target]\<rparr>" using unlink_failure by blast
    with a Inl show ?thesis by (simp add: import_file_def)
  next
    case (Inr u)
    with un have e: "lstat (fs s1) target = Inl ENOENT" "stat (fs s1) target = Inl ENOENT"
      using unlink_effect by blast+
    from exists_absent [OF e(2)] have ex: "exists (fs s1) target = Inr False" .
    from remove_existing_absent [OF ex] a Inr
    have "import_file target source s = import_file target source s1"
      by (simp add: import_file_def)
    with e ex Inr show ?thesis by simp
  qed
next
  assume a: "exists (fs s) target = Inr False \<and> lstat (fs s) source = Inr n \<and> lstat (fs s) target = Inr m"
  then have hl: "hardlink_to target source s =
          (Inl (OSError EEXIST), s\<lparr>trace := trace s @ [HardlinkTo target source]\<rparr>)"
    using hardlink_to_exists by blast
  then show "hardlink_to target source s =
          (Inl (OSError EEXIST), s\<lparr>trace := trace s @ [HardlinkTo target source]\<rparr>)" .
  from a have "remove_existing target s = (Inr (), s)" by (simp add: remove_existing_absent)
  with hl show "import_file target source s =
          (Inr (), s\<lparr>trace := trace s @ [HardlinkTo target source, Log ERROR (AlreadyExists target)]\<rparr>)"
    by (simp add: import_file_def is_FileExistsError_def log_error_def emit_def)
next
  assume a: "exists (fs s) target = Inr False \<and> hardlink_to target source s = (Inl e, s2)
        \<and> e \<noteq> OSError EEXIST"
  then have re: "remove_existing target s = (Inr (), s)" by (simp add: remove_existing_absent)
  from a hardlink_to_failure have s2: "s2 = s\<lparr>trace := trace s @ [HardlinkTo target source]\<rparr>"
    and os: "is_OSError e" by blast+
  from s2 show "fs s2 = fs s" by simp
  let ?s3 = "s\<lparr>trace := trace s @ [HardlinkTo target source,
                                         Log ERROR (FailedToHardlink source target e)]\<rparr>"
  from a re s2 os show run: "import_file target source s =
          (case shutil_copy source target ?s3 of
             (Inl e', s3) \<Rightarrow> (Inl e', s3)
           | (Inr d, s3) \<Rightarrow> (Inr (), s3))"
    by (simp add: import_file_def is_FileExistsError_def log_error_def emit_def)
  {
    assume c: "stat (fs s) source = Inr (File i) \<and> where_is (fs s) True True target = Inr loc
           \<and> node_at (tree (fs s)) loc = None \<and> can_write (tree (fs s)) loc"
    from a have nd: "\<not> os_path_isdir (fs ?s3) target" using not_isdir_absent by simp
    from c have c': "stat (fs ?s3) source = Inr (File i)" "where_is (fs ?s3) True True target = Inr loc"
        "node_at (tree (fs ?s3)) loc = None" "can_write (tree (fs ?s3)) loc"
      by simp_all
    note cp = shutil_copy_creates [OF c'(1) nd c'(2,3,4)]
    from cp run show "import_file target source s =
             (Inr (), s\<lparr>fs := create_file loc (content (fs s) i) (fs s),
                        trace := trace s @ [HardlinkTo target source,
                                            Log ERROR (FailedToHardlink source target e),
                                            ShutilCopy source target]\<rparr>)"
      by simp
    from cp show "stat (create_file loc (content (fs s) i) (fs s)) target = Inr (File (next_ino (fs s)))"
      by simp
    from cp show "content (create_file loc (content (fs s) i) (fs s)) (next_ino (fs s)) = content (fs s) i"
      by simp
  }
  {
    assume "stat (fs s) source = Inl x"
    then have "stat (fs ?s3) source = Inl x" by simp
    from shutil_copy_no_source [OF this, of target] run
    show "import_file target source s =
             (Inl (OSError x), s\<lparr>trace := trace s @ [HardlinkTo target source,
                                                    Log ERROR (FailedToHardlink source target e),
                                                    ShutilCopy source target]\<rparr>)"
      by simp
  }
qed

text \<open>
  The theorem of C3 on three imports. Into \<^verbatim>\<open>/media/old.mkv\<close> on the host that
  refuses hard links: the old file is unlinked and its path is then empty, the link fails
  with \<open>EXDEV\<close>, and the copy leaves a new inode with the bytes of the source. Onto the
  dangling link \<^verbatim>\<open>/media/dangle\<close>: nothing is deleted, the link fails with \<open>EEXIST\<close>,
  and only the error is logged. From a source that is not there: the link fails with
  \<open>ENOENT\<close>, and so does the copy, whose exception leaves the function.
\<close>

theorem import_file_first_deletes_then_links_witness:
  "exists (fs example_state_xdev) [''/'', ''media'', ''old.mkv''] = Inr True
   \<and> fst (remove_existing [''/'', ''media'', ''old.mkv''] example_state_xdev) = Inr ()
   \<and> trace (snd (remove_existing [''/'', ''media'', ''old.mkv''] example_state_xdev)) =
       [Unlink [''/'', ''media'', ''old.mkv'']]
   \<and> lstat (fs (snd (remove_existing [''/'', ''media'', ''old.mkv''] example_state_xdev)))
        [''/'', ''media'', ''old.mkv''] = Inl ENOENT
   \<and> fst (hardlink_to [''/'', ''media'', ''old.mkv''] [''/'', ''downloads'', ''show'', ''ep1.mkv'']
             (snd (remove_existing [''/'', ''media'', ''old.mkv''] example_state_xdev))) = Inl (OSError EXDEV)
   \<and> stat (fs example_state_xdev) [''/'', ''downloads'', ''show'', ''ep1.mkv''] = Inr (File 1)
   \<and> content (fs example_state_xdev) 1 = [1, 2, 3]
   \<and> fst (import_file [''/'', ''media'', ''old.mkv''] [''/'', ''downloads'', ''show'', ''ep1.mkv'']
             example_state_xdev) = Inr ()
   \<and> trace (snd (import_file [''/'', ''media'', ''old.mkv''] [''/'', ''downloads'', ''show'', ''ep1.mkv'']
                    example_state_xdev)) =
       [Unlink [''/'', ''media'', ''old.mkv''],
        HardlinkTo [''/'', ''media'', ''old.mkv''] [''/'', ''downloads'', ''show'', ''ep1.mkv''],
        Log ERROR (FailedToHardlink [''/'', ''downloads'', ''show'', ''ep1.mkv'']
                     [''/'', ''media'', ''old.mkv''] (OSError EXDEV)),
        ShutilCopy [''/'', ''downloads'', ''show'', ''ep1.mkv''] [''/'', ''media'', ''old.mkv'']]
   \<and> stat (fs (snd (import_file [''/'', ''media'', ''old.mkv''] [''/'', ''downloads'', ''show'', ''ep1.mkv'']
                      example_state_xdev))) [''/'', ''media'', ''old.mkv''] = Inr (File 20)
   \<and> content (fs (snd (import_file [''/'', ''media'', ''old.mkv''] [''/'', ''downloads'', ''show'', ''ep1.mkv'']
                         example_state_xdev))) 20 = [1, 2, 3]
   \<and> exists (fs example_state) [''/'', ''media'', ''dangle''] = Inr False
   \<and> lstat (fs example_state) [''/'', ''media'', ''dangle''] = Inr (Symlink [''/'', ''gone'', ''x''])
   \<and> lstat (fs example_state) [''/'', ''downloads'', ''show'', ''ep1.srt''] = Inr (File 2)
   \<and> import_file [''/'', ''media'', ''dangle''] [''/'', ''downloads'', ''show'', ''ep1.srt''] example_state =
       (Inr (), example_state\<lparr>trace :=
          [HardlinkTo [''/'', ''media'', ''dangle''] [''/'', ''downloads'', ''show'', ''ep1.srt''],
           Log ERROR (AlreadyExists [''/'', ''media'', ''dangle''])]\<rparr>)
   \<and> exists (fs example_state) [''/'', ''media'', ''new.mkv''] = Inr False
   \<and> stat (fs example_state) [''/'', ''downloads'', ''show'', ''nope.mkv''] = Inl ENOENT
   \<and> import_file [''/'', ''media'', ''new.mkv''] [''/'', ''downloads'', ''show'', ''nope.mkv''] example_state =
       (Inl (OSError ENOENT), example_state\<lparr>trace :=
          [HardlinkTo [''/'', ''media'', ''new.mkv''] [''/'', ''downloads'', ''show'', ''nope.mkv''],
           Log ERROR (FailedToHardlink [''/'', ''downloads'', ''show'', ''nope.mkv'']
                        [''/'', ''media'', ''new.mkv''] (OSError ENOENT)),
           ShutilCopy [''/'', ''downloads'', ''show'', ''nope.mkv''] [''/'', ''media'', ''new.mkv'']]\<rparr>)"
proof -
  let ?old = "[''/'', ''media'', ''old.mkv'']"
  let ?ep = "[''/'', ''downloads'', ''show'', ''ep1.mkv'']"
  let ?srt = "[''/'', ''downloads'', ''show'', ''ep1.srt'']"
  let ?dangle = "[''/'', ''media'', ''dangle'']"
  let ?new = "[''/'', ''media'', ''new.mkv'']"
  let ?nope = "[''/'', ''downloads'', ''show'', ''nope.mkv'']"
  let ?w1 = "set_entry [''media'', ''old.mkv''] None (fs example_state_xdev)"
  let ?s1 = "example_state_xdev\<lparr>fs := ?w1, trace := [Unlink ?old]\<rparr>"
  let ?s2 = "?s1\<lparr>trace := [Unlink ?old, HardlinkTo ?old ?ep]\<rparr>"
  have t: "trace example_state = []" "trace example_state_xdev = []" by (simp_all add: example_defs)
  have a1: "exists (fs example_state_xdev) ?old = Inr True"
    by (simp add: path_defs fs_defs example_defs)
  have a2: "remove_existing ?old example_state_xdev = (Inr (), ?s1)"
    by (simp add: run_defs path_defs fs_defs state_defs example_defs)
  have a3: "stat (fs example_state_xdev) ?ep = Inr (File 1)" "content (fs example_state_xdev) 1 = [1, 2, 3]"
    by (simp_all add: path_defs fs_defs example_defs)
  have b1: "hardlink_to ?old ?ep ?s1 = (Inl (OSError EXDEV), ?s2)"
    by (simp add: run_defs path_defs fs_defs state_defs example_defs)
  have b2: "stat (fs ?s1) ?ep = Inr (File 1)"
       "where_is (fs ?s1) True True ?old = Inr [''media'', ''old.mkv'']"
       "node_at (tree (fs ?s1)) [''media'', ''old.mkv''] = None"
       "can_write (tree (fs ?s1)) [''media'', ''old.mkv'']"
       "next_ino (fs ?s1) = 20" "content (fs ?s1) 1 = [1, 2, 3]"
    by (simp_all add: path_defs fs_defs example_defs)
  have c1: "exists (fs example_state) ?dangle = Inr False"
       "lstat (fs example_state) ?dangle = Inr (Symlink [''/'', ''gone'', ''x''])"
       "lstat (fs example_state) ?srt = Inr (File 2)"
    by (simp_all add: path_defs fs_defs example_defs)
  have d1: "exists (fs example_state) ?new = Inr False"
       "stat (fs example_state) ?nope = Inl ENOENT"
    by (simp_all add: path_defs fs_defs example_defs)
  have d2: "hardlink_to ?new ?nope example_state =
              (Inl (OSError ENOENT), example_state\<lparr>trace := [HardlinkTo ?new ?nope]\<rparr>)"
    by (simp add: run_defs path_defs fs_defs state_defs example_defs)
  have ne: "OSError EXDEV \<noteq> OSError EEXIST" "OSError ENOENT \<noteq> OSError EEXIST" by simp_all
  note A = import_file_first_deletes_then_links [of example_state_xdev ?old "Inr ()" ?s1 ?ep,
      THEN conjunct1, THEN mp, OF conjI [OF a1 a2]]
  from A have A': "lstat (fs ?s1) ?old = Inl ENOENT" "exists (fs ?s1) ?old = Inr False"
      "import_file ?old ?ep example_state_xdev = import_file ?old ?ep ?s1"
    by simp_all
  note B = import_file_first_deletes_then_links [of ?s1 ?old _ _ ?ep _ _ "OSError EXDEV" ?s2 1
      "[''media'', ''old.mkv'']", THEN conjunct2, THEN conjunct2, THEN mp,
      OF conjI [OF A'(2) conjI [OF b1 ne(1)]]]
  note B' = B [THEN conjunct2, THEN conjunct2, THEN conjunct1, THEN mp,
      OF conjI [OF b2(1) conjI [OF b2(2) conjI [OF b2(3) b2(4)]]]]
  note C = import_file_first_deletes_then_links [of example_state ?dangle _ _ ?srt "File 2"
      "Symlink [''/'', ''gone'', ''x'']", THEN conjunct2, THEN conjunct1, THEN mp,
      OF conjI [OF c1(1) conjI [OF c1(3) c1(2)]], THEN conjunct2]
  note D = import_file_first_deletes_then_links [of example_state ?new _ _ ?nope _ _ "OSError ENOENT"
      "example_state\<lparr>trace := [HardlinkTo ?new ?nope]\<rparr>" _ _ ENOENT,
      THEN conjunct2, THEN conjunct2, THEN mp, OF conjI [OF d1(1) conjI [OF d2 ne(2)]],
      THEN conjunct2, THEN conjunct2, THEN conjunct2, THEN mp, OF d1(2)]
  have r: "fst (import_file ?old ?ep example_state_xdev) = Inr ()"
      "trace (snd (import_file ?old ?ep example_state_xdev)) =
         [Unlink ?old, HardlinkTo ?old ?ep, Log ERROR (FailedToHardlink ?ep ?old (OSError EXDEV)),
          ShutilCopy ?ep ?old]"
      "stat (fs (snd (import_file ?old ?ep example_state_xdev))) ?old = Inr (File 20)"
      "content (fs (snd (import_file ?old ?ep example_state_xdev))) 20 = [1, 2, 3]"
    using B' b2(5,6) by (simp_all add: A'(3))
  have C': "import_file ?dangle ?srt example_state =
       (Inr (), example_state\<lparr>trace := [HardlinkTo ?dangle ?srt, Log ERROR (AlreadyExists ?dangle)]\<rparr>)"
    using C by (simp add: t)
  have D': "import_file ?new ?nope example_state =
       (Inl (OSError ENOENT), example_state\<lparr>trace :=
          [HardlinkTo ?new ?nope, Log ERROR (FailedToHardlink ?nope ?new (OSError ENOENT)),
           ShutilCopy ?nope ?new]\<rparr>)"
    using D by (simp add: t)
  show ?thesis
    using a1 a3 A'(1) r c1 C' d1 D'
    by (simp add: a2 b1)
qed

subsection \<open>C4: the orchestrator\<close>

text \<open>The result of \<^verbatim>\<open>import_torrent\<close> when it returns.\<close>

lemma import_torrent_result:
  assumes "import_torrent env torrent s = (Inr (video_files, subtitle_files, all_files), s')"
  shows "all_files = spec_scan (fs s') (get_torrent_filepath env torrent)
       \<and> video_files = filter (spec_is_video env) all_files
       \<and> subtitle_files = filter (spec_is_subtitle env) all_files
       \<and> calls (trace s') =
           calls (trace s) @ [Glob (get_torrent_filepath env torrent)]
             @ map (\<lambda>f. ExtractArchive (str f) (str (parent f)))
                 (filter (spec_is_archive env) (spec_scan (fs s) (get_torrent_filepath env torrent)))
             @ [Glob (get_torrent_filepath env torrent)]"

proof -
  let ?root = "get_torrent_filepath env torrent"
  let ?s0 = "log_info (ImportingTorrent torrent) s"
  obtain r1 s1 where scan1: "list_files_recursively ?root ?s0 = (r1, s1)" by fastforce
  from assms scan1 obtain A where r1: "r1 = Inr A"
    by (cases r1) (simp_all add: import_torrent_def)
  from list_files_recursively_returns [OF scan1 [unfolded r1]]
  have A: "A = spec_scan (fs s) ?root" by simp
  from list_files_recursively_frame [OF scan1]
  have s1: "fs s1 = fs s" "calls (trace s1) = calls (trace s) @ [Glob ?root]"
    by simp_all
  let ?s1' = "log_debug (FoundDownloaded (length A)) s1"
  obtain r2 s2 where ex: "extract_archives env A ?s1' = (r2, s2)" by fastforce
  from assms scan1 r1 ex have r2: "r2 = Inr ()"
    by (cases r2) (simp_all add: import_torrent_def)
  from extract_archives_calls [OF ex [unfolded r2]]
  have s2: "calls (trace s2) = calls (trace s) @ [Glob ?root]
              @ map (\<lambda>f. ExtractArchive (str f) (str (parent f))) (filter (spec_is_archive env) A)"
    by (simp add: s1)
  obtain r3 s3 where scan2: "list_files_recursively ?root s2 = (r3, s3)" by fastforce
  from assms scan1 r1 ex r2 scan2 obtain B where r3: "r3 = Inr B"
    by (cases r3) (simp_all add: import_torrent_def)
  from list_files_recursively_returns [OF scan2 [unfolded r3]]
  have B: "B = spec_scan (fs s2) ?root" .
  from list_files_recursively_frame [OF scan2]
  have s3: "fs s3 = fs s2" "calls (trace s3) = calls (trace s2) @ [Glob ?root]"
    by simp_all
  from assms scan1 r1 ex r2 scan2 r3
  have res: "all_files = B"
       "video_files = filter (spec_is_video env) all_files"
       "subtitle_files = filter (spec_is_subtitle env) all_files"
       "fs s' = fs s3" "calls (trace s') = calls (trace s3)"
    by (auto simp: import_torrent_def classify_result)
  show ?thesis
    using res s3 s2 A B by simp
qed

text \<open>On a well-formed tree the lists that \<^verbatim>\<open>import_torrent\<close> returns hold each path
  once.\<close>

lemma import_torrent_distinct:
  assumes "import_torrent env torrent s = (Inr (video_files, subtitle_files, all_files), s')"
    and "stat (fs s') (get_torrent_filepath env torrent) = Inr T" and "wf_node T"
  shows "distinct all_files \<and> distinct video_files \<and> distinct subtitle_files"
  using import_torrent_result [OF assms(1)] spec_scan_distinct [OF assms(2,3)]
  by simp

text \<open>
  Claim C4: \<^verbatim>\<open>import_torrent\<close> resolves the directory of the torrent, scans it (file
  list A), runs one pass of archive expansion over A, scans the same directory again
  (file list B), classifies B and returns the video files, the subtitle files and B. The
  calls it makes are, in order, the first glob, one extraction for each archive of A
  (and none for an archive that only B holds), and the second glob; B is the scan of the
  filesystem as the expansion left it.
\<close>

theorem import_torrent_sequence:
  assumes "import_torrent env torrent s = (Inr (video_files, subtitle_files, all_files), s')"
  shows "all_files = spec_scan (fs s') (get_torrent_filepath env torrent)
       \<and> video_files = filter (spec_is_video env) all_files
       \<and> subtitle_files = filter (spec_is_subtitle env) all_files
       \<and> calls (trace s') =
           calls (trace s) @ [Glob (get_torrent_filepath env torrent)]
             @ map (\<lambda>f. ExtractArchive (str f) (str (parent f)))
                 (filter (spec_is_archive env) (spec_scan (fs s) (get_torrent_filepath env torrent)))
             @ [Glob (get_torrent_filepath env torrent)]"
  using import_torrent_result [OF assms] .

text \<open>
  The theorem of C4 on the example torrent: \<^verbatim>\<open>pack.zip\<close> and \<^verbatim>\<open>bad.rar\<close> are
  extracted once each; \<^verbatim>\<open>inner.zip\<close>, which the first extraction reveals, is in B
  and is not extracted.
\<close>

theorem import_torrent_sequence_witness:
  "fst (import_torrent example_env example_torrent example_state) =
     Inr ([[''/'', ''downloads'', ''show'', ''ep1.mkv''], [''/'', ''downloads'', ''show'', ''extra.mp4'']],
          [[''/'', ''downloads'', ''show'', ''ep1.srt'']],
          [[''/'', ''downloads'', ''show'', ''ep1.mkv''], [''/'', ''downloads'', ''show'', ''ep1.srt''],
           [''/'', ''downloads'', ''show'', ''pack.zip''], [''/'', ''downloads'', ''show'', ''bad.rar''],
           [''/'', ''downloads'', ''show'', ''extra.mp4''], [''/'', ''downloads'', ''show'', ''inner.zip''],
           [''/'', ''downloads'', ''show'', ''sub'', ''notes.txt'']])
   \<and> calls (trace (snd (import_torrent example_env example_torrent example_state))) =
       [Glob [''/'', ''downloads'', ''show''],
        ExtractArchive ''/downloads/show/pack.zip'' ''/downloads/show'',
        ExtractArchive ''/downloads/show/bad.rar'' ''/downloads/show'',
        Glob [''/'', ''downloads'', ''show'']]
   \<and> spec_scan (fs (snd (import_torrent example_env example_torrent example_state)))
        (get_torrent_filepath example_env example_torrent) =
          [[''/'', ''downloads'', ''show'', ''ep1.mkv''], [''/'', ''downloads'', ''show'', ''ep1.srt''],
           [''/'', ''downloads'', ''show'', ''pack.zip''], [''/'', ''downloads'', ''show'', ''bad.rar''],
           [''/'', ''downloads'', ''show'', ''extra.mp4''], [''/'', ''downloads'', ''show'', ''inner.zip''],
           [''/'', ''downloads'', ''show'', ''sub'', ''notes.txt'']]"
proof -
  let ?B = "[[''/'', ''downloads'', ''show'', ''ep1.mkv''], [''/'', ''downloads'', ''show'', ''ep1.srt''],
           [''/'', ''downloads'', ''show'', ''pack.zip''], [''/'', ''downloads'', ''show'', ''bad.rar''],
           [''/'', ''downloads'', ''show'', ''extra.mp4''], [''/'', ''downloads'', ''show'', ''inner.zip''],
           [''/'', ''downloads'', ''show'', ''sub'', ''notes.txt'']]"
  let ?V = "[[''/'', ''downloads'', ''show'', ''ep1.mkv''], [''/'', ''downloads'', ''show'', ''extra.mp4'']]"
  let ?S = "[[''/'', ''downloads'', ''show'', ''ep1.srt'']]"
  have run: "fst (import_torrent example_env example_torrent example_state) = Inr (?V, ?S, ?B)"
    by (simp add: run_defs path_defs fs_defs state_defs example_defs)
  then have eq: "import_torrent example_env example_torrent example_state =
      (Inr (?V, ?S, ?B), snd (import_torrent example_env example_torrent example_state))"
    by (metis prod.collapse)
  have root: "get_torrent_filepath example_env example_torrent = [''/'', ''downloads'', ''show'']"
    by (simp add: get_torrent_filepath_def path_defs example_defs)
  have A: "map (\<lambda>f. ExtractArchive (str f) (str (parent f)))
             (filter (spec_is_archive example_env) (spec_scan (fs example_state) [''/'', ''downloads'', ''show''])) =
           [ExtractArchive ''/downloads/show/pack.zip'' ''/downloads/show'',
            ExtractArchive ''/downloads/show/bad.rar'' ''/downloads/show'']"
    by (simp add: spec_scan_def spec_is_archive_def run_defs path_defs fs_defs example_defs)
  have t: "trace example_state = []" by (simp add: example_defs)
  from import_torrent_sequence [OF eq] run show ?thesis
    by (simp add: root A t)
qed

subsection \<open>C5: the rules of the classifier\<close>

text \<open>
  Claim C5: the classifier goes through the files in input order; a file whose type is
  not detected is in neither output; otherwise a file whose type begins with
  \<^verbatim>\<open>video\<close> is added to the videos; otherwise a file whose type begins with
  \<^verbatim>\<open>text\<close> and whose suffix is exactly \<^verbatim>\<open>.srt\<close> is added to the subtitles;
  otherwise it is in neither. Each output is the input filtered by its rule, so it keeps
  the order of the input, and the log records follow the input order too.
\<close>

theorem classifier_rule:
  "classify env files [] [] s =
     ((filter (spec_is_video env) files, filter (spec_is_subtitle env) files),
      s\<lparr>trace := trace s @ concat (map (spec_classify_log env) files)\<rparr>)"
  by (simp add: classify_result)

text \<open>The theorem of C5 on six file names: the suffix \<^verbatim>\<open>.SRT\<close> is not \<^verbatim>\<open>.srt\<close>.\<close>

theorem classifier_rule_witness:
  "fst (classify example_env
     [[''movie.mp4''], [''show.srt''], [''show.txt''], [''archive.zip''], [''README''], [''clip.SRT'']]
     [] [] example_state) = ([[''movie.mp4'']], [[''show.srt'']])"
  using classifier_rule [of example_env
     "[[''movie.mp4''], [''show.srt''], [''show.txt''], [''archive.zip''], [''README''], [''clip.SRT'']]" example_state]
  by (simp add: spec_is_video_def spec_is_subtitle_def path_defs example_defs)

subsection \<open>C6: a failed extraction\<close>

text \<open>
  Claim C6: when the extraction of one archive of a batch fails with a
  \<^verbatim>\<open>PatoolError\<close>, the failure is logged and the batch goes on: the files after it are
  processed as a batch of their own, from the state that the failed extraction left.
  The archive that failed is extracted once only.
\<close>

theorem extraction_failure_tolerated:
  assumes "extract_archives env before s = (Inr (), s1)"
    and "stat (fs s1) file = Inr n"
    and "in_archive_types (fst (guess_type env (str file)))"
    and "extract_archive env (str file) (str (parent file)) (fs s1) = (Some (PatoolError m), w)"
  shows "extract_archives env (before @ file # later) s =
           extract_archives env later
             (s1\<lparr>fs := w,
              trace := trace s1 @
                [Log DEBUG (FileInfo file (st_size (fs s1) n) (guess_type env (str file))),
                 Log INFO (ExtractingInto file (parent file)),
                 ExtractArchive (str file) (str (parent file)),
                 Log ERROR (FailedToExtract file (PatoolError m))]\<rparr>)"
  using assms
  by (simp add: extract_archives_append Let_def is_PatoolError_def log_debug_def log_info_def
        log_error_def emit_def)

text \<open>The theorem of C6 on a batch of three: after \<^verbatim>\<open>bad.rar\<close> has failed,
  \<^verbatim>\<open>pack.zip\<close> is extracted.\<close>

theorem extraction_failure_tolerated_witness:
  "extract_archives example_env [[''/'', ''downloads'', ''show'', ''ep1.mkv'']] example_state =
     (Inr (), example_state\<lparr>trace :=
        [Log DEBUG (FileInfo [''/'', ''downloads'', ''show'', ''ep1.mkv''] 3 (Some ''video/x-matroska'', None))]\<rparr>)
   \<and> stat (fs example_state) [''/'', ''downloads'', ''show'', ''bad.rar''] = Inr (File 4)
   \<and> in_archive_types (fst (guess_type example_env (str [''/'', ''downloads'', ''show'', ''bad.rar''])))
   \<and> extract_archive example_env (str [''/'', ''downloads'', ''show'', ''bad.rar''])
        (str (parent [''/'', ''downloads'', ''show'', ''bad.rar''])) (fs example_state) =
        (Some (PatoolError ''corrupt''), fs example_state)
   \<and> fst (extract_archives example_env
        [[''/'', ''downloads'', ''show'', ''ep1.mkv''], [''/'', ''downloads'', ''show'', ''bad.rar''],
         [''/'', ''downloads'', ''show'', ''pack.zip'']] example_state) = Inr ()
   \<and> trace (snd (extract_archives example_env
        [[''/'', ''downloads'', ''show'', ''ep1.mkv''], [''/'', ''downloads'', ''show'', ''bad.rar''],
         [''/'', ''downloads'', ''show'', ''pack.zip'']] example_state)) =
       [Log DEBUG (FileInfo [''/'', ''downloads'', ''show'', ''ep1.mkv''] 3 (Some ''video/x-matroska'', None)),
        Log DEBUG (FileInfo [''/'', ''downloads'', ''show'', ''bad.rar''] 0 (Some ''application/vnd.rar'', None)),
        Log INFO (ExtractingInto [''/'', ''downloads'', ''show'', ''bad.rar''] [''/'', ''downloads'', ''show'']),
        ExtractArchive ''/downloads/show/bad.rar'' ''/downloads/show'',
        Log ERROR (FailedToExtract [''/'', ''downloads'', ''show'', ''bad.rar''] (PatoolError ''corrupt'')),
        Log DEBUG (FileInfo [''/'', ''downloads'', ''show'', ''pack.zip''] 0 (Some ''application/zip'', None)),
        Log INFO (ExtractingInto [''/'', ''downloads'', ''show'', ''pack.zip''] [''/'', ''downloads'', ''show'']),
        ExtractArchive ''/downloads/show/pack.zip'' ''/downloads/show'']"
proof -
  let ?ep = "[''/'', ''downloads'', ''show'', ''ep1.mkv'']"
  let ?bad = "[''/'', ''downloads'', ''show'', ''bad.rar'']"
  let ?pack = "[''/'', ''downloads'', ''show'', ''pack.zip'']"
  let ?s1 = "example_state\<lparr>trace := [Log DEBUG (FileInfo ?ep 3 (Some ''video/x-matroska'', None))]\<rparr>"
  have h1: "extract_archives example_env [?ep] example_state = (Inr (), ?s1)"
    by (simp add: run_defs path_defs fs_defs state_defs example_defs)
  have f: "fs ?s1 = fs example_state" by simp
  have h2: "stat (fs ?s1) ?bad = Inr (File 4)"
    by (simp add: path_defs fs_defs example_defs)
  have h3: "in_archive_types (fst (guess_type example_env (str ?bad)))"
    by (simp add: run_defs path_defs example_defs)
  have h4: "extract_archive example_env (str ?bad) (str (parent ?bad)) (fs ?s1) =
              (Some (PatoolError ''corrupt''), fs example_state)"
    by (simp add: path_defs example_defs)
  have rest: "extract_archives example_env [?pack]
      (?s1\<lparr>fs := fs example_state,
            trace := trace ?s1 @
              [Log DEBUG (FileInfo ?bad (st_size (fs ?s1) (File 4)) (guess_type example_env (str ?bad))),
               Log INFO (ExtractingInto ?bad (parent ?bad)),
               ExtractArchive (str ?bad) (str (parent ?bad)),
               Log ERROR (FailedToExtract ?bad (PatoolError ''corrupt''))]\<rparr>) =
      (Inr (),
       \<lparr>fs = create_file [''downloads'', ''show'', ''inner.zip''] [80, 75]
               (create_file [''downloads'', ''show'', ''extra.mp4''] [0, 0, 0, 24] example_fs),
        trace =
         [Log DEBUG (FileInfo ?ep 3 (Some ''video/x-matroska'', None)),
          Log DEBUG (FileInfo ?bad 0 (Some ''application/vnd.rar'', None)),
          Log INFO (ExtractingInto ?bad [''/'', ''downloads'', ''show'']),
          ExtractArchive ''/downloads/show/bad.rar'' ''/downloads/show'',
          Log ERROR (FailedToExtract ?bad (PatoolError ''corrupt'')),
          Log DEBUG (FileInfo ?pack 0 (Some ''application/zip'', None)),
          Log INFO (ExtractingInto ?pack [''/'', ''downloads'', ''show'']),
          ExtractArchive ''/downloads/show/pack.zip'' ''/downloads/show'']\<rparr>)"
    by (simp add: run_defs path_defs fs_defs state_defs example_defs)
  from extraction_failure_tolerated [OF h1 h2 h3 h4, of "[?pack]"] rest
  have "extract_archives example_env ([?ep] @ ?bad # [?pack]) example_state = 
      (Inr (),
       \<lparr>fs = create_file [''downloads'', ''show'', ''inner.zip''] [80, 75]
               (create_file [''downloads'', ''show'', ''extra.mp4''] [0, 0, 0, 24] example_fs),
        trace =
         [Log DEBUG (FileInfo ?ep 3 (Some ''video/x-matroska'', None)),
          Log DEBUG (FileInfo ?bad 0 (Some ''application/vnd.rar'', None)),
          Log INFO (ExtractingInto ?bad [''/'', ''downloads'', ''show'']),
          ExtractArchive ''/downloads/show/bad.rar'' ''/downloads/show'',
          Log ERROR (FailedToExtract ?bad (PatoolError ''corrupt'')),
          Log DEBUG (FileInfo ?pack 0 (Some ''application/zip'', None)),
          Log INFO (ExtractingInto ?pack [''/'', ''downloads'', ''show'']),
          ExtractArchive ''/downloads/show/pack.zip'' ''/downloads/show'']\<rparr>)"
    by simp
  then show ?thesis
    using h1 h2 h3 h4 by simp
qed

subsection \<open>C7: the result of the scan\<close>

text \<open>
  Claim C7 says that for every directory tree \<open>T\<close> the scan of \<open>T\<close> returns exactly the
  entries under \<open>T\<close> that are neither directories nor symbolic links. On a tree that holds
  a directory that can be listed and cannot be searched the scan returns no list: the
  \<^verbatim>\<open>glob\<close> yields the entries of that directory, and \<^verbatim>\<open>is_dir\<close> of the first of
  them raises \<^verbatim>\<open>PermissionError\<close>, which nothing in the function catches.
\<close>

theorem scan_raises_below_unsearchable_directory:
  "stat (fs example_state) [''/'', ''downloads'', ''private''] =
     Inr (Dir (DirAttr True True False 4096) [(''secret.mkv'', File 7)])
   \<and> glob (fs example_state) [''/'', ''downloads'', ''private''] =
       Inr [[''/'', ''downloads'', ''private'', ''secret.mkv'']]
   \<and> stat (fs example_state) [''/'', ''downloads'', ''private'', ''secret.mkv''] = Inl EACCES
   \<and> list_files_recursively [''/'', ''downloads'', ''private''] example_state =
       (Inl (OSError EACCES), example_state\<lparr>trace :=
          [Glob [''/'', ''downloads'', ''private''], Log DEBUG (FoundEntries 1)]\<rparr>)"
  by (simp add: run_defs path_defs fs_defs state_defs example_defs)

text \<open>
  Claim C7, as amended: for every directory tree \<open>T\<close>, if the \<^verbatim>\<open>stat\<close> of no entry
  that a listing of \<open>T\<close> shows fails with an error other than those that \<^verbatim>\<open>pathlib\<close>
  ignores, the scan of \<open>T\<close> returns exactly the entries at any depth under \<open>T\<close> that
  are neither directories nor symbolic links, in no promised order: the paths it returns
  are the paths to the regular files of \<open>T\<close>, and every directory and every symbolic
  link, one that points to a directory included, is left out. Otherwise (a directory of
  \<open>T\<close> cannot be searched, or a symbolic link of \<open>T\<close> points behind such a directory)
  the scan raises an \<^verbatim>\<open>OSError\<close> that \<^verbatim>\<open>pathlib\<close> does not ignore (a
  \<^verbatim>\<open>PermissionError\<close>) and returns no list. The filesystem is unchanged in both
  cases.
\<close>

theorem scan_returns_regular_files:
  assumes "stat (fs s) root = Inr T" and "wf_node T"
  shows "if \<forall>rel m e. entry_at T rel m \<longrightarrow> stat (fs s) (root @ rel) = Inl e \<longrightarrow> ignore_error e
         then \<exists>files s'. list_files_recursively root s = (Inr files, s') \<and> fs s' = fs s
                \<and> set files = {root @ rel | rel i. entry_at T rel (File i)}
                \<and> (\<forall>x \<in> set files. is_dir (fs s) x = Inr False \<and> is_symlink (fs s) x = Inr False)
         else \<exists>e s'. list_files_recursively root s = (Inl (OSError e), s') \<and> \<not> ignore_error e
                \<and> fs s' = fs s"
proof (cases "\<forall>rel m e. entry_at T rel m \<longrightarrow> stat (fs s) (root @ rel) = Inl e \<longrightarrow> ignore_error e")
  case ok: True
  have root_ok: "\<exists>b. is_dir (fs s) root = Inr b"
    using assms(1) by (auto simp: is_dir_def split: node.splits)
  then obtain b where b: "is_dir (fs s) root = Inr b" by blast
  define g where "g = (if b then glob_paths (fs s) root else [])"
  have g: "glob (fs s) root = Inr g" "set g \<subseteq> set (glob_paths (fs s) root)"
    using b by (auto simp: glob_def g_def)
  have lst: "lstat (fs s) (root @ rel) = Inr m"
      and st: "(\<forall>tg. m \<noteq> Symlink tg) \<longrightarrow> stat (fs s) (root @ rel) = Inr m"
    if "entry_at T rel m" for rel m
    using under_root [OF assms that] ok that by (auto simp: ignore_error_def)
  have "\<forall>x \<in> set g. \<forall>e. stat (fs s) x = Inl e \<or> lstat (fs s) x = Inl e \<longrightarrow> ignore_error e"
  proof (intro ballI allI impI)
    fix x e assume "x \<in> set g" and e: "stat (fs s) x = Inl e \<or> lstat (fs s) x = Inl e"
    with g(2) have "x \<in> set (glob_paths (fs s) root)" by blast
    with assms(1) obtain rel m where x: "x = root @ rel" "entry_at T rel m"
      by (auto simp: glob_paths_iff)
    with e lst [OF x(2)] ok show "ignore_error e" by auto
  qed
  from valid_files_loop_ok [where s = "log_debug (FoundEntries (length g)) (emit (Glob root) s)" and files = g and acc = "[]"] this
  obtain out s2 where "valid_files_loop g [] (log_debug (FoundEntries (length g)) (emit (Glob root) s)) = (Inr out, s2)"
    by auto
  with g(1) obtain s' where run: "list_files_recursively root s = (Inr out, s')"
    by (simp add: list_files_recursively_def Let_def)
  note out = list_files_recursively_returns [OF run]
  have "set out = {root @ rel | rel i. entry_at T rel (File i)}"
  proof (rule set_eqI)
    fix x
    show "x \<in> set out \<longleftrightarrow> x \<in> {root @ rel | rel i. entry_at T rel (File i)}"
    proof
      assume "x \<in> set out"
      then have gx: "x \<in> set (glob_paths (fs s) root)"
        and k: "is_dir (fs s) x = Inr False \<and> is_symlink (fs s) x = Inr False"
        by (auto simp: out spec_scan_def)
      from gx assms(1) obtain rel m where rel: "x = root @ rel" "entry_at T rel m"
        by (auto simp: glob_paths_iff)
      have "\<forall>e. stat (fs s) x = Inl e \<longrightarrow> ignore_error e" using ok rel by blast
      from kind_tests [OF lst [OF rel(2)] st [OF rel(2)]] this k rel(1) obtain i where "m = File i"
        by auto
      with rel show "x \<in> {root @ rel | rel i. entry_at T rel (File i)}" by blast
    next
      assume "x \<in> {root @ rel | rel i. entry_at T rel (File i)}"
      then obtain rel i where rel: "x = root @ rel" "entry_at T rel (File i)" by blast
      then have "x \<in> set (glob_paths (fs s) root)" using assms(1) by (auto simp: glob_paths_iff)
      moreover have "\<forall>e. stat (fs s) x = Inl e \<longrightarrow> ignore_error e" using ok rel by blast
      with kind_tests [OF lst [OF rel(2)] st [OF rel(2)]] rel(1)
      have "is_dir (fs s) x = Inr False \<and> is_symlink (fs s) x = Inr False" by simp
      ultimately show "x \<in> set out" by (simp add: out spec_scan_def)
    qed
  qed
  moreover have "\<forall>x \<in> set out. is_dir (fs s) x = Inr False \<and> is_symlink (fs s) x = Inr False"
    by (simp add: out spec_scan_def)
  moreover have "fs s' = fs s" using list_files_recursively_frame [OF run] by simp
  ultimately show ?thesis using ok run by auto
next
  case bad: False
  then obtain rel m e where x: "entry_at T rel m" "stat (fs s) (root @ rel) = Inl e" "\<not> ignore_error e"
    by blast
  obtain r s' where run: "list_files_recursively root s = (r, s')" by fastforce
  have fr: "fs s' = fs s" using list_files_recursively_frame [OF run] by simp
  have "is_dir (fs s) root = Inr True"
    using assms(1) x(1) by (cases T) (auto simp: is_dir_def)
  then have g: "glob (fs s) root = Inr (glob_paths (fs s) root)" by (simp add: glob_def)
  have "root @ rel \<in> set (glob_paths (fs s) root)"
    using x(1) assms(1) by (auto simp: glob_paths_iff)
  from valid_files_loop_raises [OF this, of "log_debug (FoundEntries (length (glob_paths (fs s) root))) (emit (Glob root) s)" e "[]"] x(2,3)
  obtain e' s2 where "valid_files_loop (glob_paths (fs s) root) []
       (log_debug (FoundEntries (length (glob_paths (fs s) root))) (emit (Glob root) s)) = (Inl (OSError e'), s2)"
     "\<not> ignore_error e'"
    by auto
  with g run have "r = Inl (OSError e')" by (simp add: list_files_recursively_def Let_def)
  with run fr \<open>\<not> ignore_error e'\<close> bad show ?thesis by auto
qed

text \<open>The theorem of C7 on \<^verbatim>\<open>/downloads/show\<close>, where the scan returns, and on
  \<^verbatim>\<open>/downloads/private\<close>, where it raises.\<close>

theorem scan_returns_regular_files_witness:
  "stat (fs example_state) [''/'', ''downloads'', ''show''] = Inr example_show
   \<and> wf_node example_show
   \<and> (\<exists>files s'. list_files_recursively [''/'', ''downloads'', ''show''] example_state = (Inr files, s')
         \<and> fs s' = fs example_state
         \<and> set files = {[''/'', ''downloads'', ''show''] @ rel | rel i. entry_at example_show rel (File i)}
         \<and> (\<forall>x \<in> set files. is_dir (fs example_state) x = Inr False
                \<and> is_symlink (fs example_state) x = Inr False))
   \<and> fst (list_files_recursively [''/'', ''downloads'', ''show''] example_state) =
       Inr [[''/'', ''downloads'', ''show'', ''ep1.mkv''], [''/'', ''downloads'', ''show'', ''ep1.srt''],
            [''/'', ''downloads'', ''show'', ''pack.zip''], [''/'', ''downloads'', ''show'', ''bad.rar''],
            [''/'', ''downloads'', ''show'', ''sub'', ''notes.txt'']]
   \<and> stat (fs example_state) [''/'', ''downloads'', ''private''] = Inr example_private
   \<and> wf_node example_private
   \<and> (\<exists>e s'. list_files_recursively [''/'', ''downloads'', ''private''] example_state = (Inl (OSError e), s')
         \<and> \<not> ignore_error e \<and> fs s' = fs example_state)"
proof -
  have h1: "stat (fs example_state) [''/'', ''downloads'', ''show''] = Inr example_show"
    by (simp add: path_defs fs_defs example_defs)
  have h2: "wf_node example_show"
    by (simp add: example_show_def valid_name_def rwx_def)
  have h3: "fst (list_files_recursively [''/'', ''downloads'', ''show''] example_state) =
       Inr [[''/'', ''downloads'', ''show'', ''ep1.mkv''], [''/'', ''downloads'', ''show'', ''ep1.srt''],
            [''/'', ''downloads'', ''show'', ''pack.zip''], [''/'', ''downloads'', ''show'', ''bad.rar''],
            [''/'', ''downloads'', ''show'', ''sub'', ''notes.txt'']]"
    by (simp add: run_defs path_defs fs_defs state_defs example_defs)
  have h4: "stat (fs example_state) [''/'', ''downloads'', ''private''] = Inr example_private"
    by (simp add: path_defs fs_defs example_defs)
  have h5: "wf_node example_private"
    by (simp add: example_private_def valid_name_def)
  have h6: "fst (list_files_recursively [''/'', ''downloads'', ''private''] example_state) = Inl (OSError EACCES)"
    by (simp add: run_defs path_defs fs_defs state_defs example_defs)
  from scan_returns_regular_files [OF h1 h2] h3
  have a: "\<exists>files s'. list_files_recursively [''/'', ''downloads'', ''show''] example_state = (Inr files, s')
         \<and> fs s' = fs example_state
         \<and> set files = {[''/'', ''downloads'', ''show''] @ rel | rel i. entry_at example_show rel (File i)}
         \<and> (\<forall>x \<in> set files. is_dir (fs example_state) x = Inr False
                \<and> is_symlink (fs example_state) x = Inr False)"
    by (auto split: if_splits)
  from scan_returns_regular_files [OF h4 h5] h6
  have b: "\<exists>e s'. list_files_recursively [''/'', ''downloads'', ''private''] example_state = (Inl (OSError e), s')
         \<and> \<not> ignore_error e \<and> fs s' = fs example_state"
    by (auto split: if_splits)
  from a b h1 h2 h3 h4 h5 show ?thesis by blast
qed

subsection \<open>C8: the outputs of the classifier as sets\<close>




subsection \<open>C9: any other exception\<close>

text \<open>
  Claim C9: \<^verbatim>\<open>extract_archives\<close> catches \<^verbatim>\<open>PatoolError\<close> only. When the
  \<^verbatim>\<open>stat\<close> of a file of the batch fails, or when the extraction raises an exception
  that is not a \<^verbatim>\<open>PatoolError\<close>, the exception leaves the function at that file: the
  files after it are not processed.
\<close>

theorem other_exception_aborts_batch:
  assumes "extract_archives env before s = (Inr (), s1)"
  shows "(stat (fs s1) file = Inl e \<longrightarrow>
            extract_archives env (before @ file # later) s = (Inl (OSError e), s1))
       \<and> (stat (fs s1) file = Inr n \<and> in_archive_types (fst (guess_type env (str file)))
            \<and> extract_archive env (str file) (str (parent file)) (fs s1) = (Some x, w)
            \<and> \<not> is_PatoolError x \<longrightarrow>
            extract_archives env (before @ file # later) s =
              (Inl x, s1\<lparr>fs := w,
                       trace := trace s1 @
                         [Log DEBUG (FileInfo file (st_size (fs s1) n) (guess_type env (str file))),
                          Log INFO (ExtractingInto file (parent file)),
                          ExtractArchive (str file) (str (parent file))]\<rparr>))"
  using assms
  by (simp add: extract_archives_append Let_def log_debug_def log_info_def
        log_error_def emit_def)

text \<open>The theorem of C9 on a batch with a file that is gone, and on a batch with an
  archive on which the tool runs out of memory.\<close>

theorem other_exception_aborts_batch_witness:
  "extract_archives example_env [[''/'', ''downloads'', ''show'', ''ep1.mkv'']] example_state =
     (Inr (), example_state\<lparr>trace :=
        [Log DEBUG (FileInfo [''/'', ''downloads'', ''show'', ''ep1.mkv''] 3 (Some ''video/x-matroska'', None))]\<rparr>)
   \<and> stat (fs example_state) [''/'', ''downloads'', ''show'', ''gone.zip''] = Inl ENOENT
   \<and> extract_archives example_env
        [[''/'', ''downloads'', ''show'', ''ep1.mkv''], [''/'', ''downloads'', ''show'', ''gone.zip''],
         [''/'', ''downloads'', ''show'', ''pack.zip'']] example_state =
       (Inl (OSError ENOENT), example_state\<lparr>trace :=
          [Log DEBUG (FileInfo [''/'', ''downloads'', ''show'', ''ep1.mkv''] 3 (Some ''video/x-matroska'', None))]\<rparr>)
   \<and> stat (fs example_state) [''/'', ''downloads'', ''other'', ''odd.7z''] = Inr (File 5)
   \<and> in_archive_types (fst (guess_type example_env (str [''/'', ''downloads'', ''other'', ''odd.7z''])))
   \<and> extract_archive example_env (str [''/'', ''downloads'', ''other'', ''odd.7z''])
        (str (parent [''/'', ''downloads'', ''other'', ''odd.7z''])) (fs example_state) =
        (Some (Exception ''MemoryError''), fs example_state)
   \<and> \<not> is_PatoolError (Exception ''MemoryError'')
   \<and> extract_archives example_env
        [[''/'', ''downloads'', ''show'', ''ep1.mkv''], [''/'', ''downloads'', ''other'', ''odd.7z''],
         [''/'', ''downloads'', ''show'', ''pack.zip'']] example_state =
       (Inl (Exception ''MemoryError''), example_state\<lparr>trace :=
          [Log DEBUG (FileInfo [''/'', ''downloads'', ''show'', ''ep1.mkv''] 3 (Some ''video/x-matroska'', None)),
           Log DEBUG (FileInfo [''/'', ''downloads'', ''other'', ''odd.7z''] 0 (Some ''application/x-7z-compressed'', None)),
           Log INFO (ExtractingInto [''/'', ''downloads'', ''other'', ''odd.7z''] [''/'', ''downloads'', ''other'']),
           ExtractArchive ''/downloads/other/odd.7z'' ''/downloads/other'']\<rparr>)"
proof -
  let ?ep = "[''/'', ''downloads'', ''show'', ''ep1.mkv'']"
  let ?gone = "[''/'', ''downloads'', ''show'', ''gone.zip'']"
  let ?odd = "[''/'', ''downloads'', ''other'', ''odd.7z'']"
  let ?pack = "[''/'', ''downloads'', ''show'', ''pack.zip'']"
  let ?s1 = "example_state\<lparr>trace := [Log DEBUG (FileInfo ?ep 3 (Some ''video/x-matroska'', None))]\<rparr>"
  have h1: "extract_archives example_env [?ep] example_state = (Inr (), ?s1)"
    by (simp add: run_defs path_defs fs_defs state_defs example_defs)
  have h2: "stat (fs ?s1) ?gone = Inl ENOENT"
    by (simp add: path_defs fs_defs example_defs)
  have h3: "stat (fs ?s1) ?odd = Inr (File 5)"
    by (simp add: path_defs fs_defs example_defs)
  have h4: "in_archive_types (fst (guess_type example_env (str ?odd)))"
    by (simp add: run_defs path_defs example_defs)
  have h5: "extract_archive example_env (str ?odd) (str (parent ?odd)) (fs ?s1) =
              (Some (Exception ''MemoryError''), fs example_state)"
    by (simp add: path_defs example_defs)
  have h6: "\<not> is_PatoolError (Exception ''MemoryError'')"
    by (simp add: is_PatoolError_def)
  have v: "st_size (fs example_state) (File 5) = 0"
      "guess_type example_env ''/downloads/other/odd.7z'' = (Some ''application/x-7z-compressed'', None)"
      "str ?odd = ''/downloads/other/odd.7z''" "parent ?odd = [''/'', ''downloads'', ''other'']"
      "str [''/'', ''downloads'', ''other''] = ''/downloads/other''"
    by (simp_all add: path_defs fs_defs example_defs)
  from other_exception_aborts_batch [OF h1, of ?gone ENOENT "[?pack]"] h2
  have a: "extract_archives example_env [?ep, ?gone, ?pack] example_state = (Inl (OSError ENOENT), ?s1)"
    by (simp del: extract_archives.simps)
  from other_exception_aborts_batch [OF h1, of ?odd ENOENT "[?pack]" "File 5" "Exception ''MemoryError''" "fs example_state"]
    h3 h4 h5 h6
  have b: "extract_archives example_env [?ep, ?odd, ?pack] example_state =
       (Inl (Exception ''MemoryError''), example_state\<lparr>trace :=
          [Log DEBUG (FileInfo ?ep 3 (Some ''video/x-matroska'', None)),
           Log DEBUG (FileInfo ?odd 0 (Some ''application/x-7z-compressed'', None)),
           Log INFO (ExtractingInto ?odd [''/'', ''downloads'', ''other'']),
           ExtractArchive ''/downloads/other/odd.7z'' ''/downloads/other'']\<rparr>)"
    by (simp add: v del: extract_archives.simps)
  show ?thesis
    using h1 h2 h3 h4 h5 h6 a b by (simp del: extract_archives.simps)
qed

subsection \<open>C10: a dangling symbolic link at the destination\<close>




end
